theory Spec2Isabelle
  imports Main "HOL-Library.Sublist"
begin

section \<open>Python values, strings and exceptions\<close>

text \<open>
  A YAML configuration loads into Python values. The values that \<^verbatim>\<open>yaml.safe_load\<close>
  builds from plain scalars, sequences and mappings with string keys are kept; a
  dictionary is an association list read with \<^const>\<open>map_of\<close>. A Python string is a list
  of code points below 256.
\<close>

datatype pyval =
    PNone
  | PBool bool
  | PInt int
  | PStr string
  | PList "pyval list"
  | PDict "(string \<times> pyval) list"

type_synonym pydict = "(string \<times> pyval) list"

text \<open>An exception is a value; a function that can raise returns \<open>error + 'a\<close>.\<close>

datatype error =
    TypeError
  | AttributeError
  | KeyError
  | LibraryError string

definition bind_r :: "error + 'a \<Rightarrow> ('a \<Rightarrow> error + 'c) \<Rightarrow> error + 'c" where
  "bind_r m f = (case m of Inl e \<Rightarrow> Inl e | Inr x \<Rightarrow> f x)"

text \<open>\<^verbatim>\<open>str.lower\<close>, on code points below 256: A to Z, and the Latin-1 capitals but the
  multiplication sign, move up by 32.\<close>

definition lower_char :: "char \<Rightarrow> char" where
  "lower_char c =
     (let n = (of_char c :: nat) in
      if (65 \<le> n \<and> n \<le> 90) \<or> (192 \<le> n \<and> n \<le> 222 \<and> n \<noteq> 215)
      then char_of (n + 32) else c)"

definition lower :: "string \<Rightarrow> string" where
  "lower s = map lower_char s"

text \<open>\<^verbatim>\<open>s.endswith(suf)\<close>.\<close>

definition endswith :: "string \<Rightarrow> string \<Rightarrow> bool" where
  "endswith s suf = (length suf \<le> length s \<and> drop (length s - length suf) s = suf)"

text \<open>\<^verbatim>\<open>sub in s\<close> for two strings.\<close>

fun contains_str :: "string \<Rightarrow> string \<Rightarrow> bool" where
  "contains_str [] sub = (sub = [])"
| "contains_str (x # xs) sub = (take (length sub) (x # xs) = sub \<or> contains_str xs sub)"

text \<open>\<^verbatim>\<open>s.rfind(c)\<close>: the last index of the character, or -1.\<close>

fun rfind :: "string \<Rightarrow> char \<Rightarrow> int" where
  "rfind [] c = - 1"
| "rfind (x # xs) c =
     (let r = rfind xs c in if 0 \<le> r then r + 1 else if x = c then 0 else - 1)"

text \<open>Truthiness, as \<^verbatim>\<open>if pattern:\<close> tests it.\<close>

fun truthy :: "pyval \<Rightarrow> bool" where
  "truthy PNone = False"
| "truthy (PBool b) = b"
| "truthy (PInt i) = (i \<noteq> 0)"
| "truthy (PStr s) = (s \<noteq> [])"
| "truthy (PList xs) = (xs \<noteq> [])"
| "truthy (PDict kvs) = (kvs \<noteq> [])"

text \<open>\<^verbatim>\<open>d.get(key, default)\<close> on a dictionary.\<close>

definition dict_get :: "pydict \<Rightarrow> string \<Rightarrow> pyval \<Rightarrow> pyval" where
  "dict_get d k dflt = (case map_of d k of Some v \<Rightarrow> v | None \<Rightarrow> dflt)"

text \<open>\<^verbatim>\<open>x.get(key, default)\<close> on any value: only a dictionary has the method.\<close>

fun py_get :: "pyval \<Rightarrow> string \<Rightarrow> pyval \<Rightarrow> error + pyval" where
  "py_get (PDict d) k dflt = Inr (dict_get d k dflt)"
| "py_get v k dflt = Inl AttributeError"

text \<open>\<^verbatim>\<open>key in x\<close> for a string key: membership in a dictionary's keys, in a list's
  elements, as a substring of a string; the other values are not iterable.\<close>

fun py_contains :: "pyval \<Rightarrow> string \<Rightarrow> error + bool" where
  "py_contains (PDict d) k = Inr (k \<in> set (map fst d))"
| "py_contains (PList xs) k = Inr (PStr k \<in> set xs)"
| "py_contains (PStr s) k = Inr (contains_str s k)"
| "py_contains v k = Inl TypeError"

text \<open>\<^verbatim>\<open>x[key]\<close> for a string key: a dictionary looks it up, a string or a list wants an
  integer index, nothing else is subscriptable.\<close>

fun py_getitem :: "pyval \<Rightarrow> string \<Rightarrow> error + pyval" where
  "py_getitem (PDict d) k = (case map_of d k of Some v \<Rightarrow> Inr v | None \<Rightarrow> Inl KeyError)"
| "py_getitem v k = Inl TypeError"

subsection \<open>\<^verbatim>\<open>str()\<close> and \<^verbatim>\<open>repr()\<close>\<close>

definition digit_char :: "nat \<Rightarrow> char" where
  "digit_char d = char_of (48 + d)"

function nat_digits :: "nat \<Rightarrow> string" where
  "nat_digits n = (if n < 10 then [digit_char n] else nat_digits (n div 10) @ [digit_char (n mod 10)])"
  by pat_completeness auto
termination
  by (relation "measure (\<lambda>n. n)") auto

definition str_int :: "int \<Rightarrow> string" where
  "str_int i = (if i < 0 then CHR ''-'' # nat_digits (nat (- i)) else nat_digits (nat i))"

definition hex_char :: "nat \<Rightarrow> char" where
  "hex_char d = (if d < 10 then char_of (48 + d) else char_of (87 + d))"

text \<open>One character of a string's \<^verbatim>\<open>repr\<close>, inside the quote character \<open>q\<close>.\<close>

definition repr_char :: "char \<Rightarrow> char \<Rightarrow> string" where
  "repr_char q c =
     (let n = (of_char c :: nat) in
      if c = CHR 0x5C then [CHR 0x5C, CHR 0x5C]
      else if c = q then [CHR 0x5C, q]
      else if n = 10 then [CHR 0x5C, CHR ''n'']
      else if n = 13 then [CHR 0x5C, CHR ''r'']
      else if n = 9 then [CHR 0x5C, CHR ''t'']
      else if n < 32 \<or> (127 \<le> n \<and> n \<le> 160) \<or> n = 173
        then [CHR 0x5C, CHR ''x'', hex_char (n div 16), hex_char (n mod 16)]
      else [c])"

definition repr_str :: "string \<Rightarrow> string" where
  "repr_str s =
     (let q = (if CHR 0x27 \<in> set s \<and> CHR 0x22 \<notin> set s then CHR 0x22 else CHR 0x27)
      in q # concat (map (repr_char q) s) @ [q])"

text \<open>\<^verbatim>\<open>", ".join(parts)\<close>.\<close>

fun join_comma :: "string list \<Rightarrow> string" where
  "join_comma [] = []"
| "join_comma [x] = x"
| "join_comma (x # y # ys) = x @ '', '' @ join_comma (y # ys)"

fun py_repr :: "pyval \<Rightarrow> string" where
  "py_repr PNone = ''None''"
| "py_repr (PBool b) = (if b then ''True'' else ''False'')"
| "py_repr (PInt i) = str_int i"
| "py_repr (PStr s) = repr_str s"
| "py_repr (PList xs) = ''['' @ join_comma (map py_repr xs) @ '']''"
| "py_repr (PDict kvs) =
     ''{'' @ join_comma (map (\<lambda>kv. repr_str (fst kv) @ '': '' @ py_repr (snd kv)) kvs) @ ''}''"

definition py_str :: "pyval \<Rightarrow> string" where
  "py_str v = (case v of PStr s \<Rightarrow> s | _ \<Rightarrow> py_repr v)"

section \<open>pathlib\<close>

text \<open>The components of a POSIX path: the pieces between slashes, without the empty
  ones and the single dots.\<close>

fun split_sep :: "char \<Rightarrow> string \<Rightarrow> string list" where
  "split_sep c [] = [[]]"
| "split_sep c (x # xs) =
     (if x = c then [] # split_sep c xs
      else (case split_sep c xs of [] \<Rightarrow> [[x]] | w # ws \<Rightarrow> (x # w) # ws))"

definition path_parts :: "string \<Rightarrow> string list" where
  "path_parts s = filter (\<lambda>x. x \<noteq> [] \<and> x \<noteq> ''.'') (split_sep CHR ''/'' s)"

text \<open>\<^verbatim>\<open>Path(s).name\<close>: the last component, or the empty string.\<close>

definition path_name :: "string \<Rightarrow> string" where
  "path_name s = (case rev (path_parts s) of [] \<Rightarrow> [] | x # _ \<Rightarrow> x)"

text \<open>\<^verbatim>\<open>Path(s).stem\<close>: the name without its last suffix; a leading or a trailing dot
  starts no suffix.\<close>

definition path_stem :: "string \<Rightarrow> string" where
  "path_stem s =
     (let name = path_name s; i = rfind name CHR ''.''
      in if 0 < i \<and> i < int (length name) - 1 then take (nat i) name else name)"

section \<open>The document object model\<close>

text \<open>
  The part of a python-docx document that the processor reads and writes. Lengths are
  integers (EMU), absent when the attribute is. A header or a footer can be shared by
  several sections (a section linked to the previous one edits the same paragraphs), so
  their paragraph lists live in a store, \<open>hf_parts\<close>, and a section holds the indices of
  the header and the footer it resolves to.
\<close>

record run =
  run_text :: string
  bold :: "bool option"
  italic :: "bool option"

datatype inline = RunItem run | Hyperlink string

record para =
  style_name :: string
  content :: "inline list"

datatype orient = PORTRAIT | LANDSCAPE

record sect =
  orientation :: orient
  page_width :: "int option"
  page_height :: "int option"
  top_margin :: "int option"
  bottom_margin :: "int option"
  left_margin :: "int option"
  right_margin :: "int option"
  header_ref :: nat
  footer_ref :: nat

record docx =
  paragraphs :: "para list"
  sections :: "sect list"
  hf_parts :: "para list list"

text \<open>\<^verbatim>\<open>p.runs\<close>: the runs that are direct children of the paragraph.\<close>

fun runs :: "inline list \<Rightarrow> run list" where
  "runs [] = []"
| "runs (RunItem r # xs) = r # runs xs"
| "runs (Hyperlink t # xs) = runs xs"

fun inline_text :: "inline \<Rightarrow> string" where
  "inline_text (RunItem r) = run_text r"
| "inline_text (Hyperlink t) = t"

text \<open>\<^verbatim>\<open>p.text\<close>: the text of the runs and of the hyperlinks, in document order.\<close>

definition p_text :: "para \<Rightarrow> string" where
  "p_text p = concat (map inline_text (content p))"

text \<open>\<^verbatim>\<open>p.runs[0]._r.getparent().remove(p.runs[0]._r)\<close>: the first run leaves the
  paragraph.\<close>

fun remove_first_run :: "inline list \<Rightarrow> inline list" where
  "remove_first_run [] = []"
| "remove_first_run (RunItem r # xs) = xs"
| "remove_first_run (Hyperlink t # xs) = Hyperlink t # remove_first_run xs"

text \<open>\<^verbatim>\<open>p.add_run(text)\<close>: a new run with no formatting of its own, at the end.\<close>

definition add_run :: "para \<Rightarrow> string \<Rightarrow> para" where
  "add_run p t = p\<lparr>content := content p @ [RunItem \<lparr>run_text = t, bold = None, italic = None\<rparr>]\<rparr>"

section \<open>The libraries\<close>

text \<open>
  What the code calls and does not define: \<^verbatim>\<open>zipfile\<close>, \<^verbatim>\<open>docx\<close>, \<^verbatim>\<open>re\<close> and
  float arithmetic. Each is a parameter, for any type \<open>'b\<close> of byte strings:
  \<^item> \<open>zip_infolist b\<close> is \<^verbatim>\<open>ZipFile(io.BytesIO(b)).infolist()\<close>, each member's
    \<^verbatim>\<open>filename\<close> with what \<^verbatim>\<open>zf.read\<close> gives for it;
  \<^item> \<open>Document b\<close> is \<^verbatim>\<open>Document(io.BytesIO(b))\<close> and \<open>doc_to_bytes\<close> is
    \<^verbatim>\<open>_doc_to_bytes\<close>;
  \<^item> \<open>re_sub pattern repl s\<close> is \<^verbatim>\<open>re.sub(pattern, repl, s, flags=re.MULTILINE)\<close>;
  \<^item> \<open>Mm_float v\<close> is \<^verbatim>\<open>Mm(float(v))\<close>.
\<close>

record 'b library =
  zip_infolist :: "'b \<Rightarrow> error + (string \<times> (error + 'b)) list"
  Document :: "'b \<Rightarrow> error + docx"
  doc_to_bytes :: "docx \<Rightarrow> 'b"
  re_sub :: "pyval \<Rightarrow> pyval \<Rightarrow> string \<Rightarrow> error + string"
  Mm_float :: "pyval \<Rightarrow> error + int"

section \<open>processor.py\<close>

subsection \<open>\<^verbatim>\<open>apply_page_setup\<close>\<close>

text \<open>The four sides of the margin loop, each with the attribute it sets.\<close>

definition margin_sides :: "(string \<times> (int \<Rightarrow> sect \<Rightarrow> sect)) list" where
  "margin_sides =
     [(''top'', \<lambda>v s. s\<lparr>top_margin := Some v\<rparr>),
      (''bottom'', \<lambda>v s. s\<lparr>bottom_margin := Some v\<rparr>),
      (''left'', \<lambda>v s. s\<lparr>left_margin := Some v\<rparr>),
      (''right'', \<lambda>v s. s\<lparr>right_margin := Some v\<rparr>)]"

fun set_margins ::
  "'b library \<Rightarrow> pyval \<Rightarrow> (string \<times> (int \<Rightarrow> sect \<Rightarrow> sect)) list \<Rightarrow> sect \<Rightarrow> error + sect" where
  "set_margins L margins [] s = Inr s"
| "set_margins L margins ((side, setattr) # rest) s =
     bind_r (py_contains margins side) (\<lambda>present.
       if present then
         bind_r (py_getitem margins side) (\<lambda>v.
         bind_r (Mm_float L v) (\<lambda>emu.
           set_margins L margins rest (setattr emu s)))
       else set_margins L margins rest s)"

text \<open>The body of the loop over the sections.\<close>

definition setup_section :: "'b library \<Rightarrow> string \<Rightarrow> pyval \<Rightarrow> sect \<Rightarrow> error + sect" where
  "setup_section L orientation_name margins s =
     set_margins L margins margin_sides
       (if orientation_name = ''landscape''
        then s\<lparr>orientation := LANDSCAPE, page_width := page_height s, page_height := page_width s\<rparr>
        else s\<lparr>orientation := PORTRAIT\<rparr>)"

fun setup_sections :: "'b library \<Rightarrow> string \<Rightarrow> pyval \<Rightarrow> sect list \<Rightarrow> error + sect list" where
  "setup_sections L orientation_name margins [] = Inr []"
| "setup_sections L orientation_name margins (s # ss) =
     bind_r (setup_section L orientation_name margins s) (\<lambda>s'.
     bind_r (setup_sections L orientation_name margins ss) (\<lambda>ss'.
       Inr (s' # ss')))"

definition apply_page_setup :: "'b library \<Rightarrow> 'b \<Rightarrow> pydict \<Rightarrow> error + 'b" where
  "apply_page_setup L docx_bytes cfg =
     bind_r (Document L docx_bytes) (\<lambda>doc.
       let orientation_name = lower (py_str (dict_get cfg ''orientation'' (PStr ''portrait'')));
           margins = dict_get cfg ''margins_mm'' (PDict [])
       in bind_r (setup_sections L orientation_name margins (sections doc)) (\<lambda>ss.
            Inr (doc_to_bytes L (doc\<lparr>sections := ss\<rparr>))))"

subsection \<open>\<^verbatim>\<open>apply_find_replace\<close>\<close>

text \<open>The joined run text, \<^verbatim>\<open>"".join(run.text for run in p.runs)\<close>.\<close>

definition joined_run_text :: "para \<Rightarrow> string" where
  "joined_run_text p = concat (map run_text (runs (content p)))"

text \<open>The variable \<^verbatim>\<open>text\<close> of \<^verbatim>\<open>replace_in_paragraph\<close>, on which the substitution
  runs: the joined run text, or \<^verbatim>\<open>p.text\<close> when the joined run text is empty.\<close>

definition find_text :: "para \<Rightarrow> string" where
  "find_text p =
     (let joined = joined_run_text p
      in if joined \<noteq> [] then joined else p_text p)"

text \<open>The loop \<^verbatim>\<open>for _ in range(len(p.runs))\<close>, which removes the first run each time.\<close>

definition clear_runs :: "para \<Rightarrow> para" where
  "clear_runs p = p\<lparr>content := (remove_first_run ^^ length (runs (content p))) (content p)\<rparr>"

definition replace_in_paragraph ::
  "'b library \<Rightarrow> para \<Rightarrow> pyval \<Rightarrow> pyval \<Rightarrow> error + para" where
  "replace_in_paragraph L p pattern repl =
     (let text = find_text p
      in bind_r (re_sub L pattern repl text) (\<lambda>new_text.
           if new_text \<noteq> text then Inr (add_run (clear_runs p) new_text) else Inr p))"

text \<open>The loop \<^verbatim>\<open>for rule in rules\<close> on one paragraph.\<close>

fun replace_rules :: "'b library \<Rightarrow> pyval list \<Rightarrow> para \<Rightarrow> error + para" where
  "replace_rules L [] p = Inr p"
| "replace_rules L (rule # rules) p =
     bind_r (py_get rule ''pattern'' PNone) (\<lambda>pattern.
     bind_r (py_get rule ''replace'' (PStr [])) (\<lambda>repl.
       if truthy pattern then
         bind_r (replace_in_paragraph L p pattern repl) (\<lambda>p'. replace_rules L rules p')
       else replace_rules L rules p))"

text \<open>The loop \<^verbatim>\<open>for p in ...paragraphs\<close>.\<close>

fun replace_paragraphs :: "'b library \<Rightarrow> pyval list \<Rightarrow> para list \<Rightarrow> error + para list" where
  "replace_paragraphs L rules [] = Inr []"
| "replace_paragraphs L rules (p # ps) =
     bind_r (replace_rules L rules p) (\<lambda>p'.
     bind_r (replace_paragraphs L rules ps) (\<lambda>ps'.
       Inr (p' # ps')))"

text \<open>One container, a header or a footer: its paragraphs are rewritten in the store.\<close>

definition replace_container ::
  "'b library \<Rightarrow> pyval list \<Rightarrow> nat \<Rightarrow> para list list \<Rightarrow> error + para list list" where
  "replace_container L rules r store =
     (if r < length store
      then bind_r (replace_paragraphs L rules (store ! r)) (\<lambda>ps. Inr (store[r := ps]))
      else Inr store)"

text \<open>The loop over the sections, header then footer.\<close>

fun replace_sections ::
  "'b library \<Rightarrow> pyval list \<Rightarrow> sect list \<Rightarrow> para list list \<Rightarrow> error + para list list" where
  "replace_sections L rules [] store = Inr store"
| "replace_sections L rules (s # ss) store =
     bind_r (replace_container L rules (header_ref s) store) (\<lambda>store1.
     bind_r (replace_container L rules (footer_ref s) store1) (\<lambda>store2.
       replace_sections L rules ss store2))"

definition apply_find_replace :: "'b library \<Rightarrow> 'b \<Rightarrow> pyval list \<Rightarrow> error + 'b" where
  "apply_find_replace L docx_bytes rules =
     bind_r (Document L docx_bytes) (\<lambda>doc.
     bind_r (replace_paragraphs L rules (paragraphs doc)) (\<lambda>body.
     bind_r (replace_sections L rules (sections doc) (hf_parts doc)) (\<lambda>store.
       Inr (doc_to_bytes L (doc\<lparr>paragraphs := body, hf_parts := store\<rparr>)))))"

subsection \<open>What find/replace may change in a paragraph\<close>

text \<open>The content of a paragraph without its runs.\<close>

fun non_runs :: "inline list \<Rightarrow> inline list" where
  "non_runs [] = []"
| "non_runs (RunItem r # xs) = non_runs xs"
| "non_runs (Hyperlink t # xs) = Hyperlink t # non_runs xs"

text \<open>The paragraph with its runs removed and a single new run holding \<open>t\<close>.\<close>

definition collapsed :: "para \<Rightarrow> string \<Rightarrow> para" where
  "collapsed p t =
     p\<lparr>content := non_runs (content p) @ [RunItem \<lparr>run_text = t, bold = None, italic = None\<rparr>]\<rparr>"

text \<open>A rule changes the text of a paragraph: its pattern is truthy and the
  substitution, run on the text of the paragraph (\<^const>\<open>find_text\<close>), does not return
  that text as it is.\<close>

definition rule_changes :: "'b library \<Rightarrow> para \<Rightarrow> pyval \<Rightarrow> bool" where
  "rule_changes L p rule =
     (case rule of
        PDict d \<Rightarrow>
          truthy (dict_get d ''pattern'' PNone) \<and>
          re_sub L (dict_get d ''pattern'' PNone) (dict_get d ''replace'' (PStr [])) (find_text p)
            \<noteq> Inr (find_text p)
      | _ \<Rightarrow> False)"

text \<open>The new text \<open>t\<close> of a rule on a paragraph \<open>q\<close>: the pattern is truthy and the
  substitution, run on the text of \<open>q\<close>, returns \<open>t\<close>, which is not that text.\<close>

definition rule_rewrites :: "'b library \<Rightarrow> pyval \<Rightarrow> para \<Rightarrow> string \<Rightarrow> bool" where
  "rule_rewrites L rule q t =
     (case rule of
        PDict d \<Rightarrow>
          truthy (dict_get d ''pattern'' PNone) \<and>
          re_sub L (dict_get d ''pattern'' PNone) (dict_get d ''replace'' (PStr [])) (find_text q)
            = Inr t \<and>
          t \<noteq> find_text q
      | _ \<Rightarrow> False)"

text \<open>What the rules can make of a paragraph \<open>p\<close>: \<open>p\<close> itself, or \<open>p\<close> with its
  runs removed and replaced by a single run that holds the new text of one of the
  rules, on \<open>p\<close> or on what the rules had made of it before.\<close>

inductive rewrites_to :: "'b library \<Rightarrow> pyval list \<Rightarrow> para \<Rightarrow> para \<Rightarrow> bool"
  for L :: "'b library" and rules :: "pyval list" and p :: para where
  unchanged: "rewrites_to L rules p p"
| replaced: "rewrites_to L rules p q \<Longrightarrow> rule \<in> set rules \<Longrightarrow> rule_rewrites L rule q t \<Longrightarrow>
     rewrites_to L rules p (collapsed p t)"

text \<open>The frame condition of the specification, between a paragraph before and after:
  if no rule changes its text it is left exactly as it was, and if it is not as it was
  its runs were removed and replaced by a single run holding the new text.\<close>

definition para_frame :: "'b library \<Rightarrow> pyval list \<Rightarrow> para \<Rightarrow> para \<Rightarrow> bool" where
  "para_frame L rules p p' =
     (((\<forall>rule \<in> set rules. \<not> rule_changes L p rule) \<longrightarrow> p' = p) \<and>
      rewrites_to L rules p p')"

section \<open>app.py\<close>

subsection \<open>\<^verbatim>\<open>iter_input_docs\<close>\<close>

text \<open>An uploaded file: \<^verbatim>\<open>item.name\<close> and \<^verbatim>\<open>item.getvalue()\<close>.\<close>

record 'b upload =
  item_name :: string
  getvalue :: 'b

text \<open>\<^verbatim>\<open>zi.is_dir()\<close>: the member's name ends with a slash.\<close>

definition is_dir :: "string \<Rightarrow> bool" where
  "is_dir filename = endswith filename ''/''"

text \<open>The loop over \<^verbatim>\<open>zf.infolist()\<close>; \<^verbatim>\<open>zf.read(zi)\<close> is only called for a member that
  is kept.\<close>

fun zip_members ::
  "(string \<times> (error + 'b)) list \<Rightarrow> (string \<times> 'b) list \<Rightarrow> error + (string \<times> 'b) list" where
  "zip_members [] results = Inr results"
| "zip_members ((filename, content_read) # zis) results =
     (if \<not> is_dir filename \<and> endswith (lower filename) ''.docx''
      then bind_r content_read (\<lambda>data.
             zip_members zis (results @ [(path_name filename, data)]))
      else zip_members zis results)"

text \<open>The loop over the uploaded items.\<close>

fun input_items ::
  "'b library \<Rightarrow> 'b upload list \<Rightarrow> (string \<times> 'b) list \<Rightarrow> error + (string \<times> 'b) list" where
  "input_items L [] results = Inr results"
| "input_items L (item # items) results =
     (let name = lower (item_name item) in
      if endswith name ''.docx''
        then input_items L items (results @ [(item_name item, getvalue item)])
      else if endswith name ''.zip''
        then bind_r (zip_infolist L (getvalue item)) (\<lambda>zis.
             bind_r (zip_members zis results) (\<lambda>results'.
               input_items L items results'))
      else input_items L items results)"

text \<open>\<^verbatim>\<open>uploaded_items or []\<close>: no upload at all counts as the empty list.\<close>

definition iter_input_docs :: "'b library \<Rightarrow> 'b upload list option \<Rightarrow> error + (string \<times> 'b) list" where
  "iter_input_docs L uploaded_items =
     input_items L (case uploaded_items of None \<Rightarrow> [] | Some items \<Rightarrow> items) []"

text \<open>The expanded input list, as the specification words it: a .docx upload contributes
  itself; a .zip upload contributes its non-directory .docx members, in archive order,
  under their base names; any other upload contributes nothing.\<close>

definition docx_members :: "(string \<times> (error + 'b)) list \<Rightarrow> (string \<times> 'b) list" where
  "docx_members zis =
     concat (map (\<lambda>zi. case snd zi of
                          Inr data \<Rightarrow>
                            if \<not> is_dir (fst zi) \<and> endswith (lower (fst zi)) ''.docx''
                            then [(path_name (fst zi), data)] else []
                        | Inl e \<Rightarrow> []) zis)"

definition upload_docs :: "'b library \<Rightarrow> 'b upload \<Rightarrow> (string \<times> 'b) list" where
  "upload_docs L item =
     (if endswith (lower (item_name item)) ''.docx'' then [(item_name item, getvalue item)]
      else if endswith (lower (item_name item)) ''.zip'' then
        (case zip_infolist L (getvalue item) of
           Inr zis \<Rightarrow> docx_members zis
         | Inl e \<Rightarrow> [])
      else [])"

definition expanded_inputs :: "'b library \<Rightarrow> 'b upload list \<Rightarrow> (string \<times> 'b) list" where
  "expanded_inputs L items = concat (map (upload_docs L) items)"

subsection \<open>\<^verbatim>\<open>process_one\<close>\<close>

text \<open>
  The five functions that app.py imports from processor.py, as a record:
  \<^verbatim>\<open>process_one\<close> is modelled for whatever they compute. The fields carry the prefix
  \<open>p_\<close>.
\<close>

record 'b processor =
  p_compose_into_template :: "'b \<Rightarrow> 'b \<Rightarrow> error + 'b"
  p_apply_page_setup :: "'b \<Rightarrow> pydict \<Rightarrow> error + 'b"
  p_set_header_footer :: "'b \<Rightarrow> pydict \<Rightarrow> error + 'b"
  p_apply_style_mappings :: "'b \<Rightarrow> pydict \<Rightarrow> error + 'b"
  p_apply_find_replace :: "'b \<Rightarrow> pyval list \<Rightarrow> error + 'b"

text \<open>\<^verbatim>\<open>key in cfg and isinstance(cfg[key], dict)\<close>, with the dictionary when it holds.\<close>

definition cfg_dict :: "pydict \<Rightarrow> string \<Rightarrow> pydict option" where
  "cfg_dict cfg k = (case map_of cfg k of Some (PDict d) \<Rightarrow> Some d | _ \<Rightarrow> None)"

text \<open>\<^verbatim>\<open>key in cfg and isinstance(cfg[key], list)\<close>, with the list when it holds.\<close>

definition cfg_list :: "pydict \<Rightarrow> string \<Rightarrow> pyval list option" where
  "cfg_list cfg k = (case map_of cfg k of Some (PList xs) \<Rightarrow> Some xs | _ \<Rightarrow> None)"

definition process_one :: "'b processor \<Rightarrow> string \<Rightarrow> 'b \<Rightarrow> 'b \<Rightarrow> pydict \<Rightarrow> error + 'b" where
  "process_one P name data tpl_bytes cfg =
     bind_r (p_compose_into_template P data tpl_bytes) (\<lambda>composed.
     bind_r (case cfg_dict cfg ''page_setup'' of
               Some d \<Rightarrow> p_apply_page_setup P composed d
             | None \<Rightarrow> Inr composed) (\<lambda>composed.
     bind_r (case cfg_dict cfg ''header_footer'' of
               Some d \<Rightarrow> p_set_header_footer P composed d
             | None \<Rightarrow> Inr composed) (\<lambda>composed.
     bind_r (case cfg_dict cfg ''style_map'' of
               Some d \<Rightarrow> p_apply_style_mappings P composed d
             | None \<Rightarrow> Inr composed) (\<lambda>composed.
     bind_r (case cfg_list cfg ''find_replace'' of
               Some rules \<Rightarrow> p_apply_find_replace P composed rules
             | None \<Rightarrow> Inr composed) (\<lambda>composed.
       Inr composed)))))"

text \<open>
  The same function with a log of the calls it makes into processor.py, in the order
  it makes them: a call is logged when it is made, also when it raises.
\<close>

datatype step = Compose | PageSetup | HeaderFooter | StyleMap | FindReplace

definition call_step ::
  "step \<Rightarrow> 'a option \<Rightarrow> ('b \<Rightarrow> 'a \<Rightarrow> error + 'b) \<Rightarrow> step list \<times> (error + 'b) \<Rightarrow> step list \<times> (error + 'b)" where
  "call_step s arg f st =
     (case snd st of
        Inl e \<Rightarrow> st
      | Inr composed \<Rightarrow>
          (case arg of None \<Rightarrow> st | Some a \<Rightarrow> (fst st @ [s], f composed a)))"

definition process_one_log ::
  "'b processor \<Rightarrow> string \<Rightarrow> 'b \<Rightarrow> 'b \<Rightarrow> pydict \<Rightarrow> step list \<times> (error + 'b)" where
  "process_one_log P name data tpl_bytes cfg =
     (let st0 = ([Compose], p_compose_into_template P data tpl_bytes);
          st1 = call_step PageSetup (cfg_dict cfg ''page_setup'') (p_apply_page_setup P) st0;
          st2 = call_step HeaderFooter (cfg_dict cfg ''header_footer'') (p_set_header_footer P) st1;
          st3 = call_step StyleMap (cfg_dict cfg ''style_map'') (p_apply_style_mappings P) st2;
          st4 = call_step FindReplace (cfg_list cfg ''find_replace'') (p_apply_find_replace P) st3
      in st4)"

text \<open>The steps a configuration enables, in the order of the code.\<close>

definition enabled_steps :: "pydict \<Rightarrow> step list" where
  "enabled_steps cfg =
     Compose #
     (if cfg_dict cfg ''page_setup'' = None then [] else [PageSetup]) @
     (if cfg_dict cfg ''header_footer'' = None then [] else [HeaderFooter]) @
     (if cfg_dict cfg ''style_map'' = None then [] else [StyleMap]) @
     (if cfg_list cfg ''find_replace'' = None then [] else [FindReplace])"

subsection \<open>The batch loop\<close>

text \<open>
  The output archive is the list of its entries, in the order \<^verbatim>\<open>writestr\<close> added them.
  An entry is the processed document, or the error marker
  \<^verbatim>\<open>f"Failed to process {name}: {e}"\<close>, kept as the two values it is formatted from.
\<close>

datatype 'b payload = DocxBytes 'b | FailureText string error

definition writestr :: "(string \<times> 'b payload) list \<Rightarrow> string \<Rightarrow> 'b payload \<Rightarrow> (string \<times> 'b payload) list" where
  "writestr zf arcname data = zf @ [(arcname, data)]"

text \<open>The body of the loop: \<^verbatim>\<open>try\<close> the document, \<^verbatim>\<open>except Exception\<close> write the marker.\<close>

definition process_entry ::
  "'b processor \<Rightarrow> 'b \<Rightarrow> pydict \<Rightarrow> string \<times> 'b \<Rightarrow> (string \<times> 'b payload) list \<Rightarrow> (string \<times> 'b payload) list" where
  "process_entry P tpl_bytes cfg doc zf =
     (case process_one P (fst doc) (snd doc) tpl_bytes cfg of
        Inr out_bytes \<Rightarrow> writestr zf (path_stem (fst doc) @ ''_refit.docx'') (DocxBytes out_bytes)
      | Inl e \<Rightarrow> writestr zf (path_stem (fst doc) @ ''__ERROR.txt'') (FailureText (fst doc) e))"

fun process_loop ::
  "'b processor \<Rightarrow> 'b \<Rightarrow> pydict \<Rightarrow> (string \<times> 'b) list \<Rightarrow> (string \<times> 'b payload) list \<Rightarrow> (string \<times> 'b payload) list" where
  "process_loop P tpl_bytes cfg [] zf = zf"
| "process_loop P tpl_bytes cfg (doc # docs) zf =
     process_loop P tpl_bytes cfg docs (process_entry P tpl_bytes cfg doc zf)"

text \<open>\<^verbatim>\<open>Process all\<close>: the archive starts empty.\<close>

definition process_all ::
  "'b processor \<Rightarrow> 'b \<Rightarrow> pydict \<Rightarrow> (string \<times> 'b) list \<Rightarrow> (string \<times> 'b payload) list" where
  "process_all P tpl_bytes cfg docs = process_loop P tpl_bytes cfg docs []"

section \<open>Concrete instances\<close>

text \<open>
  Small instances on which the model is evaluated. In the first a byte string is a
  string and every step appends its own letter to the document, so the result shows
  which steps ran and in which order; composing an empty document raises.
\<close>

definition tag_processor :: "string processor" where
  "tag_processor =
     \<lparr>p_compose_into_template = (\<lambda>data tpl.
        if data = [] then Inl (LibraryError ''PackageNotFoundError'') else Inr (tpl @ data)),
      p_apply_page_setup = (\<lambda>b d. Inr (b @ ''P'')),
      p_set_header_footer = (\<lambda>b d. Inr (b @ ''H'')),
      p_apply_style_mappings = (\<lambda>b d. Inr (b @ ''S'')),
      p_apply_find_replace = (\<lambda>b rules. Inr (b @ ''F''))\<rparr>"

definition full_cfg :: pydict where
  "full_cfg =
     [(''page_setup'', PDict [(''orientation'', PStr ''portrait'')]),
      (''header_footer'', PDict [(''header_text'', PStr ''New'')]),
      (''style_map'', PDict [(''Heading 1'', PStr ''Title'')]),
      (''find_replace'', PList [PDict [(''pattern'', PStr ''a''), (''replace'', PStr ''b'')]])]"

text \<open>
  In the second a byte string is the document or the archive it encodes, the regular
  expressions are the single ordinary characters, and a margin is a whole number of
  millimetres.
\<close>

datatype blob = DocxBlob docx | ZipBlob "(string \<times> blob) list" | Junk string

definition demo_library :: "blob library" where
  "demo_library =
     \<lparr>zip_infolist = (\<lambda>b. case b of
          ZipBlob members \<Rightarrow> Inr (map (\<lambda>m. (fst m, Inr (snd m))) members)
        | _ \<Rightarrow> Inl (LibraryError ''BadZipFile'')),
      Document = (\<lambda>b. case b of
          DocxBlob d \<Rightarrow> Inr d
        | _ \<Rightarrow> Inl (LibraryError ''PackageNotFoundError'')),
      doc_to_bytes = DocxBlob,
      re_sub = (\<lambda>pattern repl s. case (pattern, repl) of
          (PStr [c], PStr r) \<Rightarrow> Inr (concat (map (\<lambda>x. if x = c then r else [x]) s))
        | _ \<Rightarrow> Inl (LibraryError ''re.error'')),
      Mm_float = (\<lambda>v. case v of PInt n \<Rightarrow> Inr (n * 36000) | _ \<Rightarrow> Inl TypeError)\<rparr>"

definition a4_section :: sect where
  "a4_section =
     \<lparr>orientation = PORTRAIT, page_width = Some 7560310, page_height = Some 10692130,
      top_margin = Some 720090, bottom_margin = Some 720090,
      left_margin = Some 900430, right_margin = Some 540385,
      header_ref = 0, footer_ref = 1\<rparr>"

definition plain_run :: "string \<Rightarrow> inline" where
  "plain_run t = RunItem \<lparr>run_text = t, bold = None, italic = None\<rparr>"

definition bold_run :: "string \<Rightarrow> inline" where
  "bold_run t = RunItem \<lparr>run_text = t, bold = Some True, italic = None\<rparr>"

definition demo_doc :: docx where
  "demo_doc =
     \<lparr>paragraphs =
        [\<lparr>style_name = ''Heading 1'', content = [bold_run ''ab'', plain_run ''ba'']\<rparr>,
         \<lparr>style_name = ''Normal'', content = [bold_run ''cd'', Hyperlink ''x'', plain_run ''e'']\<rparr>],
      sections = [a4_section],
      hf_parts =
        [[\<lparr>style_name = ''Header'', content = [plain_run ''New Layout'']\<rparr>],
         [\<lparr>style_name = ''Footer'', content = [plain_run ''Confidential'']\<rparr>]]\<rparr>"

text \<open>A configuration with the two layout steps only: its \<open>style_map\<close> is no
  dictionary and its \<open>find_replace\<close> no list.\<close>

definition layout_cfg :: pydict where
  "layout_cfg =
     [(''page_setup'', PDict [(''orientation'', PStr ''landscape'')]),
      (''header_footer'', PDict [(''footer_text'', PStr ''Draft'')]),
      (''style_map'', PStr ''Heading 1''),
      (''find_replace'', PNone)]"

text \<open>A processor on these byte strings: composing appends the body of the legacy
  document to the template's, page setup and find/replace are the functions above, and
  the two other steps read the document and save it as it is.\<close>

definition demo_processor :: "blob processor" where
  "demo_processor =
     \<lparr>p_compose_into_template = (\<lambda>data tpl.
        bind_r (Document demo_library tpl) (\<lambda>base.
        bind_r (Document demo_library data) (\<lambda>src.
          Inr (doc_to_bytes demo_library (base\<lparr>paragraphs := paragraphs base @ paragraphs src\<rparr>))))),
      p_apply_page_setup = apply_page_setup demo_library,
      p_set_header_footer = (\<lambda>b d.
        bind_r (Document demo_library b) (\<lambda>doc. Inr (doc_to_bytes demo_library doc))),
      p_apply_style_mappings = (\<lambda>b d.
        bind_r (Document demo_library b) (\<lambda>doc. Inr (doc_to_bytes demo_library doc))),
      p_apply_find_replace = apply_find_replace demo_library\<rparr>"

definition empty_doc :: docx where
  "empty_doc = \<lparr>paragraphs = [], sections = [], hf_parts = []\<rparr>"

text \<open>Three uploads: a document, an archive (a directory, a document in it, a text
  file, an archive in the archive, a file named as a document that is none) and a text
  file.\<close>

definition demo_uploads :: "blob upload list" where
  "demo_uploads =
     [\<lparr>item_name = ''Report.DOCX'', getvalue = DocxBlob empty_doc\<rparr>,
      \<lparr>item_name = ''batch.zip'', getvalue = ZipBlob
         [(''docs/'', Junk []),
          (''docs/a.docx'', DocxBlob empty_doc),
          (''docs/notes.txt'', Junk ''n''),
          (''inner.zip'', ZipBlob [(''deep.docx'', DocxBlob empty_doc)]),
          (''b.v2.Docx'', Junk ''broken'')]\<rparr>,
      \<lparr>item_name = ''readme.txt'', getvalue = Junk ''r''\<rparr>]"

text \<open>The A4 section turned to landscape, and a page setup that asks for it with a capital
  letter.\<close>

definition landscape_section :: sect where
  "landscape_section =
     a4_section\<lparr>orientation := LANDSCAPE, page_width := Some 10692130, page_height := Some 7560310\<rparr>"

definition landscape_cfg :: pydict where
  "landscape_cfg = [(''orientation'', PStr ''Landscape''), (''margins_mm'', PDict [(''top'', PInt 10)])]"

text \<open>Three find/replace rules (the second has an empty pattern, the third no
  replacement) and the document they make of the one above.\<close>

definition demo_rules :: "pyval list" where
  "demo_rules =
     [PDict [(''pattern'', PStr ''b''), (''replace'', PStr ''zz'')],
      PDict [(''pattern'', PStr ''''), (''replace'', PStr ''never'')],
      PDict [(''pattern'', PStr ''q'')]]"

definition replaced_doc :: docx where
  "replaced_doc =
     \<lparr>paragraphs =
        [\<lparr>style_name = ''Heading 1'', content = [plain_run ''azzzza'']\<rparr>,
         \<lparr>style_name = ''Normal'', content = [bold_run ''cd'', Hyperlink ''x'', plain_run ''e'']\<rparr>],
      sections = [a4_section],
      hf_parts =
        [[\<lparr>style_name = ''Header'', content = [plain_run ''New Layout'']\<rparr>],
         [\<lparr>style_name = ''Footer'', content = [plain_run ''Confidential'']\<rparr>]]\<rparr>"

text \<open>A document of one paragraph whose only text is in a hyperlink, and a rule that
  matches it.\<close>

definition link_para :: para where
  "link_para = \<lparr>style_name = ''Normal'', content = [Hyperlink ''xax'']\<rparr>"

definition link_doc :: docx where
  "link_doc = \<lparr>paragraphs = [link_para], sections = [], hf_parts = []\<rparr>"

definition link_rules :: "pyval list" where
  "link_rules = [PDict [(''pattern'', PStr ''a''), (''replace'', PStr ''b'')]]"

section \<open>Results and sequencing\<close>

lemma bind_r_Inl [simp]: "bind_r (Inl e) f = Inl e"
  by (simp add: bind_r_def)

lemma bind_r_Inr [simp]: "bind_r (Inr x) f = f x"
  by (simp add: bind_r_def)

lemma bind_r_eq_Inr: "bind_r m f = Inr y \<longleftrightarrow> (\<exists>x. m = Inr x \<and> f x = Inr y)"
  by (cases m) simp_all

lemma bind_r_assoc: "bind_r (bind_r m f) g = bind_r m (\<lambda>x. bind_r (f x) g)"
  by (cases m) simp_all

lemma bind_r_return: "bind_r m Inr = m"
  by (cases m) simp_all

lemma cfg_dict_eq: "cfg_dict cfg k = Some d \<longleftrightarrow> map_of cfg k = Some (PDict d)"
  by (auto simp: cfg_dict_def split: option.splits pyval.splits)

lemma cfg_list_eq: "cfg_list cfg k = Some xs \<longleftrightarrow> map_of cfg k = Some (PList xs)"
  by (auto simp: cfg_list_def split: option.splits pyval.splits)

lemma cfg_dict_None: "cfg_dict cfg k = None \<longleftrightarrow> (\<forall>d. map_of cfg k \<noteq> Some (PDict d))"
  by (auto simp: cfg_dict_def split: option.splits pyval.splits)

lemma cfg_list_None: "cfg_list cfg k = None \<longleftrightarrow> (\<forall>xs. map_of cfg k \<noteq> Some (PList xs))"
  by (auto simp: cfg_list_def split: option.splits pyval.splits)

lemma snd_call_step:
  "snd (call_step s arg f st) =
     bind_r (snd st) (\<lambda>b. case arg of None \<Rightarrow> Inr b | Some a \<Rightarrow> f b a)"
  by (cases st) (auto simp: call_step_def split: sum.splits option.splits)

lemma fst_call_step:
  "fst (call_step s arg f st) =
     fst st @ (case snd st of Inl e \<Rightarrow> [] | Inr b \<Rightarrow> (case arg of None \<Rightarrow> [] | Some a \<Rightarrow> [s]))"
  by (cases st) (auto simp: call_step_def split: sum.splits option.splits)

lemma process_one_log_result:
  "snd (process_one_log P name data tpl cfg) = process_one P name data tpl cfg"
  by (simp add: process_one_log_def process_one_def Let_def snd_call_step bind_r_assoc bind_r_return)

lemma call_step_appends:
  "\<exists>c. fst (call_step s arg f st) = fst st @ (if c then [s] else [])"
  by (cases st) (auto simp: call_step_def split: sum.splits option.splits)

lemma process_one_log_calls:
  "\<exists>c1 c2 c3 c4. fst (process_one_log P name data tpl cfg) =
     Compose # (if c1 then [PageSetup] else []) @ (if c2 then [HeaderFooter] else [])
       @ (if c3 then [StyleMap] else []) @ (if c4 then [FindReplace] else [])"
proof -
  define st0 where "st0 = ([Compose], p_compose_into_template P data tpl)"
  define st1 where "st1 = call_step PageSetup (cfg_dict cfg ''page_setup'') (p_apply_page_setup P) st0"
  define st2 where "st2 = call_step HeaderFooter (cfg_dict cfg ''header_footer'') (p_set_header_footer P) st1"
  define st3 where "st3 = call_step StyleMap (cfg_dict cfg ''style_map'') (p_apply_style_mappings P) st2"
  define st4 where "st4 = call_step FindReplace (cfg_list cfg ''find_replace'') (p_apply_find_replace P) st3"
  obtain c1 where 1: "fst st1 = fst st0 @ (if c1 then [PageSetup] else [])"
    unfolding st1_def using call_step_appends by blast
  obtain c2 where 2: "fst st2 = fst st1 @ (if c2 then [HeaderFooter] else [])"
    unfolding st2_def using call_step_appends by blast
  obtain c3 where 3: "fst st3 = fst st2 @ (if c3 then [StyleMap] else [])"
    unfolding st3_def using call_step_appends by blast
  obtain c4 where 4: "fst st4 = fst st3 @ (if c4 then [FindReplace] else [])"
    unfolding st4_def using call_step_appends by blast
  have "fst (process_one_log P name data tpl cfg) = fst st4"
    by (simp add: process_one_log_def st0_def st1_def st2_def st3_def st4_def)
  also have "\<dots> = Compose # (if c1 then [PageSetup] else []) @ (if c2 then [HeaderFooter] else [])
       @ (if c3 then [StyleMap] else []) @ (if c4 then [FindReplace] else [])"
    unfolding 4 3 2 1 by (simp add: st0_def)
  finally show ?thesis by blast
qed

lemma process_one_log_subseq:
  "subseq (fst (process_one_log P name data tpl cfg))
     [Compose, PageSetup, HeaderFooter, StyleMap, FindReplace]"
  using process_one_log_calls[of P name data tpl cfg]
proof (elim exE)
  fix c1 c2 c3 c4
  assume "fst (process_one_log P name data tpl cfg) =
     Compose # (if c1 then [PageSetup] else []) @ (if c2 then [HeaderFooter] else [])
       @ (if c3 then [StyleMap] else []) @ (if c4 then [FindReplace] else [])"
  then show ?thesis by (cases c1; cases c2; cases c3; cases c4) simp_all
qed

lemma process_one_log_full:
  assumes "cfg_dict cfg ''page_setup'' = Some ps" "cfg_dict cfg ''header_footer'' = Some hf"
    "cfg_dict cfg ''style_map'' = Some sm" "cfg_list cfg ''find_replace'' = Some fr"
    "p_compose_into_template P data tpl = Inr b1" "p_apply_page_setup P b1 ps = Inr b2"
    "p_set_header_footer P b2 hf = Inr b3" "p_apply_style_mappings P b3 sm = Inr b4"
  shows "process_one_log P name data tpl cfg =
     ([Compose, PageSetup, HeaderFooter, StyleMap, FindReplace], p_apply_find_replace P b4 fr)"
  using assms by (simp add: process_one_log_def call_step_def)

text \<open>
  Claim C1. For every document and every configuration, \<^verbatim>\<open>process_one\<close> calls the
  steps in the fixed order compose, page setup, header/footer, style mappings,
  find/replace: the calls it makes are a subsequence of that list and start with
  compose, and the result is the composition of the steps in that order, each applied
  to the bytes of the one before it (a step that is not configured passes them on).
  When all four optional steps are configured and the first four succeed on the bytes
  \<open>b1\<close>, \<open>b2\<close>, \<open>b3\<close>, \<open>b4\<close>, each step is applied to the bytes the step before it
  returned, the result is what find/replace returns on \<open>b4\<close>, and all five calls are
  made.
\<close>

theorem process_one_fixed_order:
  "snd (process_one_log P name data tpl cfg) = process_one P name data tpl cfg \<and>
   subseq (fst (process_one_log P name data tpl cfg))
     [Compose, PageSetup, HeaderFooter, StyleMap, FindReplace] \<and>
   take 1 (fst (process_one_log P name data tpl cfg)) = [Compose] \<and>
   process_one P name data tpl cfg =
     bind_r (bind_r (bind_r (bind_r (p_compose_into_template P data tpl)
       (\<lambda>b. case cfg_dict cfg ''page_setup'' of
               Some d \<Rightarrow> p_apply_page_setup P b d | None \<Rightarrow> Inr b))
       (\<lambda>b. case cfg_dict cfg ''header_footer'' of
               Some d \<Rightarrow> p_set_header_footer P b d | None \<Rightarrow> Inr b))
       (\<lambda>b. case cfg_dict cfg ''style_map'' of
               Some d \<Rightarrow> p_apply_style_mappings P b d | None \<Rightarrow> Inr b))
       (\<lambda>b. case cfg_list cfg ''find_replace'' of
               Some rules \<Rightarrow> p_apply_find_replace P b rules | None \<Rightarrow> Inr b) \<and>
   (map_of cfg ''page_setup'' = Some (PDict ps) \<and> map_of cfg ''header_footer'' = Some (PDict hf) \<and>
    map_of cfg ''style_map'' = Some (PDict sm) \<and> map_of cfg ''find_replace'' = Some (PList fr) \<and>
    p_compose_into_template P data tpl = Inr b1 \<and> p_apply_page_setup P b1 ps = Inr b2 \<and>
    p_set_header_footer P b2 hf = Inr b3 \<and> p_apply_style_mappings P b3 sm = Inr b4 \<longrightarrow>
      process_one P name data tpl cfg = p_apply_find_replace P b4 fr \<and>
      fst (process_one_log P name data tpl cfg) =
        [Compose, PageSetup, HeaderFooter, StyleMap, FindReplace])"
proof (intro conjI impI)
  show "snd (process_one_log P name data tpl cfg) = process_one P name data tpl cfg"
    by (rule process_one_log_result)
  show "subseq (fst (process_one_log P name data tpl cfg))
     [Compose, PageSetup, HeaderFooter, StyleMap, FindReplace]"
    by (rule process_one_log_subseq)
  show "take 1 (fst (process_one_log P name data tpl cfg)) = [Compose]"
    using process_one_log_calls[of P name data tpl cfg] by auto
  show "process_one P name data tpl cfg =
     bind_r (bind_r (bind_r (bind_r (p_compose_into_template P data tpl)
       (\<lambda>b. case cfg_dict cfg ''page_setup'' of
               Some d \<Rightarrow> p_apply_page_setup P b d | None \<Rightarrow> Inr b))
       (\<lambda>b. case cfg_dict cfg ''header_footer'' of
               Some d \<Rightarrow> p_set_header_footer P b d | None \<Rightarrow> Inr b))
       (\<lambda>b. case cfg_dict cfg ''style_map'' of
               Some d \<Rightarrow> p_apply_style_mappings P b d | None \<Rightarrow> Inr b))
       (\<lambda>b. case cfg_list cfg ''find_replace'' of
               Some rules \<Rightarrow> p_apply_find_replace P b rules | None \<Rightarrow> Inr b)"
    by (simp add: process_one_def bind_r_assoc bind_r_return)
next
  assume a: "map_of cfg ''page_setup'' = Some (PDict ps) \<and> map_of cfg ''header_footer'' = Some (PDict hf) \<and>
    map_of cfg ''style_map'' = Some (PDict sm) \<and> map_of cfg ''find_replace'' = Some (PList fr) \<and>
    p_compose_into_template P data tpl = Inr b1 \<and> p_apply_page_setup P b1 ps = Inr b2 \<and>
    p_set_header_footer P b2 hf = Inr b3 \<and> p_apply_style_mappings P b3 sm = Inr b4"
  then have full: "process_one_log P name data tpl cfg =
     ([Compose, PageSetup, HeaderFooter, StyleMap, FindReplace], p_apply_find_replace P b4 fr)"
    using process_one_log_full[of cfg ps hf sm fr P data tpl b1 b2 b3 b4 name]
    by (simp add: cfg_dict_eq cfg_list_eq)
  show "process_one P name data tpl cfg = p_apply_find_replace P b4 fr"
    using full process_one_log_result[of P name data tpl cfg] by simp
  show "fst (process_one_log P name data tpl cfg) =
        [Compose, PageSetup, HeaderFooter, StyleMap, FindReplace]"
    using full by simp
qed

lemma tag_processor_full_run:
  "process_one_log tag_processor ''a.docx'' ''d'' ''t'' full_cfg =
     ([Compose, PageSetup, HeaderFooter, StyleMap, FindReplace], Inr ''tdPHSF'')"
  by (simp add: tag_processor_def full_cfg_def process_one_log_def call_step_def cfg_dict_def
      cfg_list_def)

theorem process_one_fixed_order_witness:
  "process_one tag_processor ''a.docx'' ''d'' ''t'' full_cfg = Inr ''tdPHSF'' \<and>
   process_one_log tag_processor ''a.docx'' ''d'' ''t'' full_cfg =
     ([Compose, PageSetup, HeaderFooter, StyleMap, FindReplace], Inr ''tdPHSF'')"
proof -
  let ?fr = "[PDict [(''pattern'', PStr ''a''), (''replace'', PStr ''b'')]]"
  have configured:
    "map_of full_cfg ''page_setup'' = Some (PDict [(''orientation'', PStr ''portrait'')]) \<and>
     map_of full_cfg ''header_footer'' = Some (PDict [(''header_text'', PStr ''New'')]) \<and>
     map_of full_cfg ''style_map'' = Some (PDict [(''Heading 1'', PStr ''Title'')]) \<and>
     map_of full_cfg ''find_replace'' = Some (PList ?fr) \<and>
     p_compose_into_template tag_processor ''d'' ''t'' = Inr ''td'' \<and>
     p_apply_page_setup tag_processor ''td'' [(''orientation'', PStr ''portrait'')] = Inr ''tdP'' \<and>
     p_set_header_footer tag_processor ''tdP'' [(''header_text'', PStr ''New'')] = Inr ''tdPH'' \<and>
     p_apply_style_mappings tag_processor ''tdPH'' [(''Heading 1'', PStr ''Title'')] = Inr ''tdPHS''"
    by (simp add: full_cfg_def tag_processor_def)
  have "process_one tag_processor ''a.docx'' ''d'' ''t'' full_cfg =
      p_apply_find_replace tag_processor ''tdPHS'' ?fr"
    using process_one_fixed_order [of tag_processor "''a.docx''" "''d''" "''t''" full_cfg
        "[(''orientation'', PStr ''portrait'')]" "[(''header_text'', PStr ''New'')]"
        "[(''Heading 1'', PStr ''Title'')]" ?fr "''td''" "''tdP''" "''tdPH''" "''tdPHS''"]
      configured
    by blast
  moreover have "p_apply_find_replace tag_processor ''tdPHS'' ?fr = Inr ''tdPHSF''"
    by (simp add: tag_processor_def)
  ultimately show ?thesis by (simp add: tag_processor_full_run)
qed

lemma call_step_None: "call_step s None f st = st"
  by (simp add: call_step_def split: sum.splits)

lemma call_step_skipped: "s \<notin> set (fst st) \<Longrightarrow> arg = None \<Longrightarrow> s \<notin> set (fst (call_step s arg f st))"
  by (simp add: call_step_None)

lemma call_step_other: "s' \<noteq> s \<Longrightarrow> s' \<in> set (fst (call_step s arg f st)) \<longleftrightarrow> s' \<in> set (fst st)"
  by (auto simp: fst_call_step split: sum.splits option.splits)

lemma process_one_log_not_called:
  "(cfg_dict cfg ''page_setup'' = None \<longrightarrow> PageSetup \<notin> set (fst (process_one_log P name data tpl cfg))) \<and>
   (cfg_dict cfg ''header_footer'' = None \<longrightarrow> HeaderFooter \<notin> set (fst (process_one_log P name data tpl cfg))) \<and>
   (cfg_dict cfg ''style_map'' = None \<longrightarrow> StyleMap \<notin> set (fst (process_one_log P name data tpl cfg))) \<and>
   (cfg_list cfg ''find_replace'' = None \<longrightarrow> FindReplace \<notin> set (fst (process_one_log P name data tpl cfg)))"
  by (simp add: process_one_log_def Let_def call_step_other call_step_None)

text \<open>
  Claim C5. The text and style transformations are optional. When the configuration
  has no dictionary under \<open>style_map\<close> and no list under \<open>find_replace\<close>,
  \<^verbatim>\<open>process_one\<close> returns what compose, page setup and header/footer produce, and
  neither \<^verbatim>\<open>apply_style_mappings\<close> nor \<^verbatim>\<open>apply_find_replace\<close> is called. Page setup
  and header/footer are likewise not called when their keys are absent or hold no
  dictionary; with none of the four, the result is the composed document.
\<close>

theorem process_one_optional_steps:
  "((\<forall>d. map_of cfg ''style_map'' \<noteq> Some (PDict d)) \<and>
    (\<forall>rules. map_of cfg ''find_replace'' \<noteq> Some (PList rules)) \<longrightarrow>
      process_one P name data tpl cfg =
        bind_r (bind_r (p_compose_into_template P data tpl)
          (\<lambda>b. case map_of cfg ''page_setup'' of
                  Some (PDict d) \<Rightarrow> p_apply_page_setup P b d | _ \<Rightarrow> Inr b))
          (\<lambda>b. case map_of cfg ''header_footer'' of
                  Some (PDict d) \<Rightarrow> p_set_header_footer P b d | _ \<Rightarrow> Inr b) \<and>
      StyleMap \<notin> set (fst (process_one_log P name data tpl cfg)) \<and>
      FindReplace \<notin> set (fst (process_one_log P name data tpl cfg))) \<and>
   ((\<forall>d. map_of cfg ''page_setup'' \<noteq> Some (PDict d)) \<longrightarrow>
      PageSetup \<notin> set (fst (process_one_log P name data tpl cfg))) \<and>
   ((\<forall>d. map_of cfg ''header_footer'' \<noteq> Some (PDict d)) \<longrightarrow>
      HeaderFooter \<notin> set (fst (process_one_log P name data tpl cfg))) \<and>
   ((\<forall>d. map_of cfg ''page_setup'' \<noteq> Some (PDict d)) \<and>
    (\<forall>d. map_of cfg ''header_footer'' \<noteq> Some (PDict d)) \<and>
    (\<forall>d. map_of cfg ''style_map'' \<noteq> Some (PDict d)) \<and>
    (\<forall>rules. map_of cfg ''find_replace'' \<noteq> Some (PList rules)) \<longrightarrow>
      process_one P name data tpl cfg = p_compose_into_template P data tpl \<and>
      fst (process_one_log P name data tpl cfg) = [Compose])"
proof (intro conjI impI)
  assume a: "(\<forall>d. map_of cfg ''style_map'' \<noteq> Some (PDict d)) \<and>
    (\<forall>rules. map_of cfg ''find_replace'' \<noteq> Some (PList rules))"
  then have n: "cfg_dict cfg ''style_map'' = None" "cfg_list cfg ''find_replace'' = None"
    by (simp_all add: cfg_dict_None cfg_list_None)
  have opt: "\<And>k f b. (case cfg_dict cfg k of Some d \<Rightarrow> f b d | None \<Rightarrow> Inr b) =
      (case map_of cfg k of Some (PDict d) \<Rightarrow> f b d | _ \<Rightarrow> Inr b)"
    by (simp add: cfg_dict_def split: option.splits pyval.splits)
  show "process_one P name data tpl cfg =
        bind_r (bind_r (p_compose_into_template P data tpl)
          (\<lambda>b. case map_of cfg ''page_setup'' of
                  Some (PDict d) \<Rightarrow> p_apply_page_setup P b d | _ \<Rightarrow> Inr b))
          (\<lambda>b. case map_of cfg ''header_footer'' of
                  Some (PDict d) \<Rightarrow> p_set_header_footer P b d | _ \<Rightarrow> Inr b)"
    unfolding process_one_def n opt by (simp add: bind_r_assoc bind_r_return)
  show "StyleMap \<notin> set (fst (process_one_log P name data tpl cfg))"
    using n process_one_log_not_called[of cfg P name data tpl] by simp
  show "FindReplace \<notin> set (fst (process_one_log P name data tpl cfg))"
    using n process_one_log_not_called[of cfg P name data tpl] by simp
next
  assume "\<forall>d. map_of cfg ''page_setup'' \<noteq> Some (PDict d)"
  then show "PageSetup \<notin> set (fst (process_one_log P name data tpl cfg))"
    using process_one_log_not_called[of cfg P name data tpl] by (simp add: cfg_dict_None)
next
  assume "\<forall>d. map_of cfg ''header_footer'' \<noteq> Some (PDict d)"
  then show "HeaderFooter \<notin> set (fst (process_one_log P name data tpl cfg))"
    using process_one_log_not_called[of cfg P name data tpl] by (simp add: cfg_dict_None)
next
  assume "(\<forall>d. map_of cfg ''page_setup'' \<noteq> Some (PDict d)) \<and>
    (\<forall>d. map_of cfg ''header_footer'' \<noteq> Some (PDict d)) \<and>
    (\<forall>d. map_of cfg ''style_map'' \<noteq> Some (PDict d)) \<and>
    (\<forall>rules. map_of cfg ''find_replace'' \<noteq> Some (PList rules))"
  then have n: "cfg_dict cfg ''page_setup'' = None" "cfg_dict cfg ''header_footer'' = None"
    "cfg_dict cfg ''style_map'' = None" "cfg_list cfg ''find_replace'' = None"
    by (simp_all add: cfg_dict_None cfg_list_None)
  show "process_one P name data tpl cfg = p_compose_into_template P data tpl"
    by (simp add: process_one_def n bind_r_return)
  show "fst (process_one_log P name data tpl cfg) = [Compose]"
    by (simp add: process_one_log_def n call_step_None)
qed

theorem process_one_optional_steps_witness:
  "process_one tag_processor ''a.docx'' ''d'' ''t'' layout_cfg = Inr ''tdPH'' \<and>
   fst (process_one_log tag_processor ''a.docx'' ''d'' ''t'' layout_cfg) = [Compose, PageSetup, HeaderFooter] \<and>
   process_one tag_processor ''a.docx'' ''d'' ''t'' [(''style_map'', PList [])] = Inr ''td'' \<and>
   fst (process_one_log tag_processor ''a.docx'' ''d'' ''t'' [(''style_map'', PList [])]) = [Compose]"
  using process_one_optional_steps [of layout_cfg tag_processor "''a.docx''" "''d''" "''t''"]
    process_one_optional_steps [of "[(''style_map'', PList [])]" tag_processor "''a.docx''" "''d''" "''t''"]
  by (simp add: tag_processor_def layout_cfg_def process_one_log_def call_step_def cfg_dict_def cfg_list_def)

lemma call_step_success:
  "snd (call_step s arg f st) = Inr out \<Longrightarrow>
     (\<exists>b. snd st = Inr b) \<and>
     fst (call_step s arg f st) = fst st @ (if arg = None then [] else [s])"
  by (cases st) (auto simp: call_step_def split: sum.splits option.splits)

lemma process_one_log_success:
  assumes "process_one P name data tpl cfg = Inr out"
  shows "fst (process_one_log P name data tpl cfg) = enabled_steps cfg"
proof -
  define st0 where "st0 = ([Compose], p_compose_into_template P data tpl)"
  define st1 where "st1 = call_step PageSetup (cfg_dict cfg ''page_setup'') (p_apply_page_setup P) st0"
  define st2 where "st2 = call_step HeaderFooter (cfg_dict cfg ''header_footer'') (p_set_header_footer P) st1"
  define st3 where "st3 = call_step StyleMap (cfg_dict cfg ''style_map'') (p_apply_style_mappings P) st2"
  define st4 where "st4 = call_step FindReplace (cfg_list cfg ''find_replace'') (p_apply_find_replace P) st3"
  have log: "process_one_log P name data tpl cfg = st4"
    by (simp add: process_one_log_def st0_def st1_def st2_def st3_def st4_def)
  with assms have 4: "snd st4 = Inr out"
    using process_one_log_result[of P name data tpl cfg] by simp
  from call_step_success[OF 4[unfolded st4_def]]
  obtain b3 where 3: "snd st3 = Inr b3"
    and l4: "fst st4 = fst st3 @ (if cfg_list cfg ''find_replace'' = None then [] else [FindReplace])"
    unfolding st4_def by blast
  from call_step_success[OF 3[unfolded st3_def]]
  obtain b2 where 2: "snd st2 = Inr b2"
    and l3: "fst st3 = fst st2 @ (if cfg_dict cfg ''style_map'' = None then [] else [StyleMap])"
    unfolding st3_def by blast
  from call_step_success[OF 2[unfolded st2_def]]
  obtain b1 where 1: "snd st1 = Inr b1"
    and l2: "fst st2 = fst st1 @ (if cfg_dict cfg ''header_footer'' = None then [] else [HeaderFooter])"
    unfolding st2_def by blast
  from call_step_success[OF 1[unfolded st1_def]]
  have l1: "fst st1 = fst st0 @ (if cfg_dict cfg ''page_setup'' = None then [] else [PageSetup])"
    unfolding st1_def by blast
  show ?thesis
    unfolding log l4 l3 l2 l1 by (simp add: st0_def enabled_steps_def)
qed

text \<open>
  Claim C6, as stated, fails: with all four optional steps configured the pipeline
  makes five calls, not four.
\<close>

theorem process_one_five_calls:
  "fst (process_one_log tag_processor ''a.docx'' ''d'' ''t'' full_cfg) =
     [Compose, PageSetup, HeaderFooter, StyleMap, FindReplace] \<and>
   length (fst (process_one_log tag_processor ''a.docx'' ''d'' ''t'' full_cfg)) \<noteq> 4"
  by (simp add: tag_processor_def full_cfg_def process_one_log_def call_step_def cfg_dict_def cfg_list_def)

text \<open>
  Claim C6, amended. For each document the pipeline makes between one and five calls:
  compose always, and, when the document is processed without an exception, one more
  for each of page setup, header/footer and style mapping whose key holds a dictionary
  and one more for find/replace when its key holds a list.
\<close>

theorem process_one_call_count:
  "1 \<le> length (fst (process_one_log P name data tpl cfg)) \<and>
   length (fst (process_one_log P name data tpl cfg)) \<le> 5 \<and>
   (process_one P name data tpl cfg = Inr out \<longrightarrow>
      fst (process_one_log P name data tpl cfg) = enabled_steps cfg \<and>
      length (fst (process_one_log P name data tpl cfg)) =
        1 + length (filter (\<lambda>k. \<exists>d. map_of cfg k = Some (PDict d))
                     [''page_setup'', ''header_footer'', ''style_map''])
          + (if \<exists>rules. map_of cfg ''find_replace'' = Some (PList rules) then 1 else 0))"
proof (intro conjI impI)
  from process_one_log_calls[of P name data tpl cfg]
  show "1 \<le> length (fst (process_one_log P name data tpl cfg))" by auto
  from process_one_log_calls[of P name data tpl cfg]
  show "length (fst (process_one_log P name data tpl cfg)) \<le> 5" by auto
next
  assume s: "process_one P name data tpl cfg = Inr out"
  then show e: "fst (process_one_log P name data tpl cfg) = enabled_steps cfg"
    by (rule process_one_log_success)
  have d: "\<And>k. (\<exists>d. map_of cfg k = Some (PDict d)) \<longleftrightarrow> cfg_dict cfg k \<noteq> None"
    by (auto simp: cfg_dict_None)
  have l: "(\<exists>rules. map_of cfg ''find_replace'' = Some (PList rules)) \<longleftrightarrow> cfg_list cfg ''find_replace'' \<noteq> None"
    by (auto simp: cfg_list_None)
  show "length (fst (process_one_log P name data tpl cfg)) =
        1 + length (filter (\<lambda>k. \<exists>d. map_of cfg k = Some (PDict d))
                     [''page_setup'', ''header_footer'', ''style_map''])
          + (if \<exists>rules. map_of cfg ''find_replace'' = Some (PList rules) then 1 else 0)"
    unfolding e d l by (simp add: enabled_steps_def)
qed

theorem process_one_call_count_witness:
  "length (fst (process_one_log tag_processor ''a.docx'' ''d'' ''t'' full_cfg)) = 5 \<and>
   length (fst (process_one_log tag_processor ''a.docx'' ''d'' ''t'' [])) = 1 \<and>
   length (fst (process_one_log tag_processor ''a.docx'' ''d'' ''t'' layout_cfg)) = 3"
  using process_one_call_count [of tag_processor "''a.docx''" "''d''" "''t''" full_cfg "''tdPHSF''"]
    process_one_call_count [of tag_processor "''a.docx''" "''d''" "''t''" "[]" "''td''"]
    process_one_call_count [of tag_processor "''a.docx''" "''d''" "''t''" layout_cfg "''tdPH''"]
  by (simp add: tag_processor_def full_cfg_def layout_cfg_def process_one_def enabled_steps_def
      cfg_dict_def cfg_list_def)

section \<open>The batch loop and the input list\<close>

lemma process_loop_append:
  "process_loop P tpl cfg docs zf =
     zf @ concat (map (\<lambda>doc. process_entry P tpl cfg doc []) docs)"
proof (induction docs arbitrary: zf)
  case Nil
  show ?case by simp
next
  case (Cons doc docs)
  have "process_entry P tpl cfg doc zf = zf @ process_entry P tpl cfg doc []"
    by (simp add: process_entry_def writestr_def split: sum.splits)
  with Cons show ?case by simp
qed

lemma process_entry_single:
  "process_entry P tpl cfg doc [] =
     [(case process_one P (fst doc) (snd doc) tpl cfg of
         Inr out \<Rightarrow> (path_stem (fst doc) @ ''_refit.docx'', DocxBytes out)
       | Inl e \<Rightarrow> (path_stem (fst doc) @ ''__ERROR.txt'', FailureText (fst doc) e))]"
  by (simp add: process_entry_def writestr_def split: sum.splits)

lemma process_all_map:
  "process_all P tpl cfg docs =
     map (\<lambda>doc. case process_one P (fst doc) (snd doc) tpl cfg of
         Inr out \<Rightarrow> (path_stem (fst doc) @ ''_refit.docx'', DocxBytes out)
       | Inl e \<Rightarrow> (path_stem (fst doc) @ ''__ERROR.txt'', FailureText (fst doc) e)) docs"
  unfolding process_all_def process_loop_append process_entry_single
  by (induction docs) simp_all

text \<open>
  Claim C2. A document whose processing raises does not abort the batch: the archive
  gets exactly one entry per input document, at the document's position, named
  \<open>stem_refit.docx\<close> with the processed bytes when \<^verbatim>\<open>process_one\<close> returns and
  \<open>stem__ERROR.txt\<close> with the failure text when it raises, and the documents after a
  failing one are processed all the same.
\<close>

theorem batch_survives_failures:
  "length (process_all P tpl cfg docs) = length docs \<and>
   (\<forall>i < length docs.
      (\<forall>out. process_one P (fst (docs ! i)) (snd (docs ! i)) tpl cfg = Inr out \<longrightarrow>
         process_all P tpl cfg docs ! i = (path_stem (fst (docs ! i)) @ ''_refit.docx'', DocxBytes out)) \<and>
      (\<forall>e. process_one P (fst (docs ! i)) (snd (docs ! i)) tpl cfg = Inl e \<longrightarrow>
         process_all P tpl cfg docs ! i =
           (path_stem (fst (docs ! i)) @ ''__ERROR.txt'', FailureText (fst (docs ! i)) e)))"
proof (intro conjI allI impI)
  show "length (process_all P tpl cfg docs) = length docs"
    by (simp add: process_all_map)
next
  fix i out
  assume "i < length docs"
    and "process_one P (fst (docs ! i)) (snd (docs ! i)) tpl cfg = Inr out"
  then show "process_all P tpl cfg docs ! i =
      (path_stem (fst (docs ! i)) @ ''_refit.docx'', DocxBytes out)"
    by (simp add: process_all_map)
next
  fix i e
  assume "i < length docs"
    and "process_one P (fst (docs ! i)) (snd (docs ! i)) tpl cfg = Inl e"
  then show "process_all P tpl cfg docs ! i =
      (path_stem (fst (docs ! i)) @ ''__ERROR.txt'', FailureText (fst (docs ! i)) e)"
    by (simp add: process_all_map)
qed

theorem batch_survives_failures_witness:
  "process_all tag_processor ''t'' full_cfg [(''a.docx'', ''x''), (''dir/b.v1.docx'', ''''), (''c.DOCX'', ''y'')] =
     [(''a_refit.docx'', DocxBytes ''txPHSF''),
      (''b.v1__ERROR.txt'', FailureText ''dir/b.v1.docx'' (LibraryError ''PackageNotFoundError'')),
      (''c_refit.docx'', DocxBytes ''tyPHSF'')]"
  using batch_survives_failures [of tag_processor "''t''" full_cfg
      "[(''a.docx'', ''x''), (''dir/b.v1.docx'', ''''), (''c.DOCX'', ''y'')]"]
  by (simp add: process_all_def process_entry_def writestr_def process_one_def tag_processor_def
      full_cfg_def cfg_dict_def cfg_list_def path_stem_def path_name_def path_parts_def)

lemma zip_members_expanded:
  "zip_members zis results = Inr out \<Longrightarrow> out = results @ docx_members zis"
proof (induction zis arbitrary: results)
  case Nil
  then show ?case by (simp add: docx_members_def)
next
  case (Cons zi zis)
  obtain filename content_read where zi: "zi = (filename, content_read)" by (cases zi)
  show ?case
  proof (cases "\<not> is_dir filename \<and> endswith (lower filename) ''.docx''")
    case True
    with Cons.prems zi obtain data where d: "content_read = Inr data"
      and r: "zip_members zis (results @ [(path_name filename, data)]) = Inr out"
      by (auto simp: bind_r_eq_Inr)
    from Cons.IH[OF r] show ?thesis
      using True zi d by (simp add: docx_members_def)
  next
    case False
    with Cons.prems zi have "zip_members zis results = Inr out" by auto
    from Cons.IH[OF this] show ?thesis
      using False zi by (auto simp: docx_members_def split: sum.splits)
  qed
qed

lemma input_items_expanded:
  "input_items L items results = Inr out \<Longrightarrow> out = results @ expanded_inputs L items"
proof (induction items arbitrary: results)
  case Nil
  then show ?case by (simp add: expanded_inputs_def)
next
  case (Cons item items)
  show ?case
  proof (cases "endswith (lower (item_name item)) ''.docx''")
    case True
    with Cons.prems have "input_items L items (results @ [(item_name item, getvalue item)]) = Inr out"
      by (simp add: Let_def)
    from Cons.IH[OF this] show ?thesis
      using True by (simp add: expanded_inputs_def upload_docs_def)
  next
    case nd: False
    show ?thesis
    proof (cases "endswith (lower (item_name item)) ''.zip''")
      case True
      with nd Cons.prems obtain zis results' where z: "zip_infolist L (getvalue item) = Inr zis"
        and m: "zip_members zis results = Inr results'"
        and r: "input_items L items results' = Inr out"
        by (auto simp: Let_def bind_r_eq_Inr)
      from Cons.IH[OF r] zip_members_expanded[OF m] show ?thesis
        using True nd z by (simp add: expanded_inputs_def upload_docs_def)
    next
      case False
      with nd Cons.prems have "input_items L items results = Inr out"
        by (simp add: Let_def)
      from Cons.IH[OF this] show ?thesis
        using False nd by (simp add: expanded_inputs_def upload_docs_def)
    qed
  qed
qed

lemma iter_input_docs_expanded:
  "iter_input_docs L uploaded_items = Inr docs \<Longrightarrow>
     docs = expanded_inputs L (case uploaded_items of None \<Rightarrow> [] | Some items \<Rightarrow> items)"
  using input_items_expanded[of L _ "[]" docs] by (simp add: iter_input_docs_def)

lemma endswith_iff: "endswith s suf \<longleftrightarrow> (\<exists>p. s = p @ suf)"
proof
  assume "endswith s suf"
  then have "s = take (length s - length suf) s @ suf"
    by (metis append_take_drop_id endswith_def)
  then show "\<exists>p. s = p @ suf" ..
next
  assume "\<exists>p. s = p @ suf"
  then show "endswith s suf" by (auto simp: endswith_def)
qed

lemma split_sep_not_Nil: "split_sep c s \<noteq> []"
  by (induction s) (auto split: list.splits)

lemma split_sep_no_sep: "c \<notin> set s \<Longrightarrow> split_sep c s = [s]"
  by (induction s) auto

lemma last_split_sep_append:
  "c \<notin> set t \<Longrightarrow> last (split_sep c (p @ t)) = last (split_sep c p) @ t"
proof (induction p)
  case Nil
  then show ?case by (simp add: split_sep_no_sep)
next
  case (Cons x p)
  show ?case
  proof (cases "x = c")
    case True
    with Cons show ?thesis by (simp add: split_sep_not_Nil)
  next
    case False
    obtain w ws where a: "split_sep c (p @ t) = w # ws"
      using split_sep_not_Nil[of c "p @ t"] by (cases "split_sep c (p @ t)") auto
    obtain v vs where b: "split_sep c p = v # vs"
      using split_sep_not_Nil[of c p] by (cases "split_sep c p") auto
    have len: "length (split_sep c (p @ t)) = length (split_sep c p)"
      using Cons.prems
    proof (induction p)
      case Nil
      then show ?case by (simp add: split_sep_no_sep)
    next
      case (Cons y p)
      then show ?case by (auto split: list.splits simp: split_sep_not_Nil)
    qed
    from len a b have e: "ws = [] \<longleftrightarrow> vs = []" by auto
    show ?thesis
    proof (cases "vs = []")
      case True
      with e have "ws = []" by simp
      with Cons a b True False show ?thesis by simp
    next
      case False2: False
      with e have "ws \<noteq> []" by simp
      with Cons a b False2 False show ?thesis by simp
    qed
  qed
qed

lemma lower_char_slash: "lower_char x = CHR ''/'' \<Longrightarrow> x = CHR ''/''"
proof (cases "(65 \<le> (of_char x :: nat) \<and> (of_char x :: nat) \<le> 90) \<or>
    (192 \<le> (of_char x :: nat) \<and> (of_char x :: nat) \<le> 222 \<and> (of_char x :: nat) \<noteq> 215)")
  case False
  have "lower_char x = x"
    unfolding lower_char_def Let_def by (simp only: False if_False)
  moreover assume "lower_char x = CHR ''/''"
  ultimately show ?thesis by simp
next
  case True
  assume "lower_char x = CHR ''/''"
  with True have "char_of (of_char x + 32 :: nat) = CHR ''/''"
    by (simp add: lower_char_def Let_def)
  then have "(of_char (char_of (of_char x + 32 :: nat)) :: nat) = of_char CHR ''/''"
    by simp
  then have m: "((of_char x :: nat) + 32) mod 256 = 47"
    by (simp only: of_char_of) simp
  define n where "n = (of_char x :: nat)"
  have "n < 256" unfolding n_def by simp
  with True have "97 \<le> n + 32" "n + 32 < 256" unfolding n_def by auto
  then have "(n + 32) mod 256 = n + 32" by simp
  with m \<open>97 \<le> n + 32\<close> have False unfolding n_def by simp
  then show ?thesis ..
qed

lemma path_name_last:
  assumes "xs \<noteq> []" "last xs \<noteq> []" "last xs \<noteq> ''.''"
  shows "(case rev (filter (\<lambda>x. x \<noteq> [] \<and> x \<noteq> ''.'') xs) of [] \<Rightarrow> [] | x # _ \<Rightarrow> x) = last xs"
proof -
  obtain ys y where xs: "xs = ys @ [y]"
    using assms(1) by (metis append_butlast_last_id)
  with assms show ?thesis by simp
qed

lemma path_name_keeps_suffix:
  assumes "endswith (lower s) ''.docx''"
  shows "endswith (lower (path_name s)) ''.docx''"
proof -
  define s1 where "s1 = take (length s - 5) s"
  define t where "t = drop (length s - 5) s"
  have s: "s = s1 @ t" by (simp add: s1_def t_def)
  from assms have len: "5 \<le> length s" and d: "drop (length s - 5) (lower s) = ''.docx''"
    by (simp_all add: endswith_def lower_def eval_nat_numeral)
  from d have lt: "lower t = ''.docx''"
    by (simp add: t_def lower_def drop_map)
  have tlen: "length t = 5" using len by (simp add: t_def)
  have "CHR ''/'' \<notin> set t"
  proof
    assume "CHR ''/'' \<in> set t"
    then have "lower_char CHR ''/'' \<in> set (lower t)" by (simp add: lower_def)
    moreover have "lower_char CHR ''/'' = CHR ''/''" by (simp add: lower_char_def)
    ultimately show False using lt by simp
  qed
  then have l: "last (split_sep CHR ''/'' s) = last (split_sep CHR ''/'' s1) @ t"
    unfolding s by (rule last_split_sep_append)
  have "5 \<le> length (last (split_sep CHR ''/'' s))"
    using l tlen by simp
  then have ne: "last (split_sep CHR ''/'' s) \<noteq> []" "last (split_sep CHR ''/'' s) \<noteq> ''.''"
    by auto
  have "path_name s = last (split_sep CHR ''/'' s)"
    unfolding path_name_def path_parts_def
    by (rule path_name_last[OF split_sep_not_Nil ne])
  then have "lower (path_name s) = lower (last (split_sep CHR ''/'' s1)) @ ''.docx''"
    using l lt by (simp add: lower_def)
  then show ?thesis by (simp add: endswith_iff)
qed

lemma docx_members_names:
  "d \<in> set (docx_members zis) \<Longrightarrow> endswith (lower (fst d)) ''.docx''"
  by (auto simp: docx_members_def path_name_keeps_suffix split: sum.splits if_splits)

lemma upload_docs_names:
  "d \<in> set (upload_docs L item) \<Longrightarrow> endswith (lower (fst d)) ''.docx''"
  by (auto simp: upload_docs_def docx_members_names split: sum.splits if_splits)

lemma expanded_inputs_names:
  "d \<in> set (expanded_inputs L items) \<Longrightarrow> endswith (lower (fst d)) ''.docx''"
  by (auto simp: expanded_inputs_def upload_docs_names)

text \<open>
  Claim C10. Every pair that \<^verbatim>\<open>iter_input_docs\<close> returns has a file name that ends in
  \<open>.docx\<close> when lower-cased, and the list it returns is the expanded input list: an
  uploaded .docx file as it is, the non-directory .docx members of an uploaded .zip
  under their base names, and nothing for any other upload or member, an archive inside
  an archive included.
\<close>

theorem iter_input_docs_only_docx:
  "iter_input_docs L uploaded_items = Inr docs \<Longrightarrow>
     (\<forall>d \<in> set docs. endswith (lower (fst d)) ''.docx'') \<and>
     docs = expanded_inputs L (case uploaded_items of None \<Rightarrow> [] | Some items \<Rightarrow> items)"
  using iter_input_docs_expanded[of L uploaded_items docs] expanded_inputs_names[of _ L]
  by blast

lemma demo_uploads_docs:
  "iter_input_docs demo_library (Some demo_uploads) =
     Inr [(''Report.DOCX'', DocxBlob empty_doc), (''a.docx'', DocxBlob empty_doc),
          (''b.v2.Docx'', Junk ''broken'')]"
  by (simp add: iter_input_docs_def demo_uploads_def demo_library_def lower_def lower_char_def
      endswith_def is_dir_def path_name_def path_parts_def char_of_def bit_iff_odd)

theorem iter_input_docs_only_docx_witness:
  "iter_input_docs demo_library (Some demo_uploads) =
     Inr [(''Report.DOCX'', DocxBlob empty_doc), (''a.docx'', DocxBlob empty_doc),
          (''b.v2.Docx'', Junk ''broken'')] \<and>
   expanded_inputs demo_library demo_uploads =
     [(''Report.DOCX'', DocxBlob empty_doc), (''a.docx'', DocxBlob empty_doc),
      (''b.v2.Docx'', Junk ''broken'')] \<and>
   endswith (lower ''Report.DOCX'') ''.docx'' \<and> endswith (lower ''a.docx'') ''.docx'' \<and>
   endswith (lower ''b.v2.Docx'') ''.docx''"
  using iter_input_docs_only_docx [OF demo_uploads_docs] demo_uploads_docs
  by simp

text \<open>
  Claim C3. Documents are processed and written in upload order: the list
  \<^verbatim>\<open>iter_input_docs\<close> returns is the concatenation, in upload order, of what each
  upload contributes (a .docx upload itself, a .zip upload its .docx members in archive
  order), and the \<open>i\<close>-th entry of the output archive is the entry written for the
  \<open>i\<close>-th document of that list.
\<close>

theorem outputs_in_upload_order:
  "iter_input_docs L uploaded_items = Inr docs \<Longrightarrow>
     docs = concat (map (upload_docs L) (case uploaded_items of None \<Rightarrow> [] | Some items \<Rightarrow> items)) \<and>
     length (process_all P tpl cfg docs) = length docs \<and>
     (\<forall>i < length docs. process_entry P tpl cfg (docs ! i) [] = [process_all P tpl cfg docs ! i])"
  using iter_input_docs_expanded[of L uploaded_items docs]
  by (simp add: expanded_inputs_def process_all_map process_entry_single)

lemma demo_uploads_archive:
  "process_all demo_processor (DocxBlob empty_doc) []
     [(''Report.DOCX'', DocxBlob empty_doc), (''a.docx'', DocxBlob empty_doc),
      (''b.v2.Docx'', Junk ''broken'')] =
     [(''Report_refit.docx'', DocxBytes (DocxBlob empty_doc)),
      (''a_refit.docx'', DocxBytes (DocxBlob empty_doc)),
      (''b.v2__ERROR.txt'', FailureText ''b.v2.Docx'' (LibraryError ''PackageNotFoundError''))]"
  by (simp add: process_all_def process_entry_def writestr_def process_one_def demo_processor_def
      demo_library_def cfg_dict_def cfg_list_def path_stem_def path_name_def path_parts_def
      empty_doc_def)

theorem outputs_in_upload_order_witness:
  "iter_input_docs demo_library (Some demo_uploads) =
     Inr [(''Report.DOCX'', DocxBlob empty_doc), (''a.docx'', DocxBlob empty_doc),
          (''b.v2.Docx'', Junk ''broken'')] \<and>
   [(''Report.DOCX'', DocxBlob empty_doc), (''a.docx'', DocxBlob empty_doc),
    (''b.v2.Docx'', Junk ''broken'')] = concat (map (upload_docs demo_library) demo_uploads) \<and>
   process_all demo_processor (DocxBlob empty_doc) []
     [(''Report.DOCX'', DocxBlob empty_doc), (''a.docx'', DocxBlob empty_doc),
      (''b.v2.Docx'', Junk ''broken'')] =
     [(''Report_refit.docx'', DocxBytes (DocxBlob empty_doc)),
      (''a_refit.docx'', DocxBytes (DocxBlob empty_doc)),
      (''b.v2__ERROR.txt'', FailureText ''b.v2.Docx'' (LibraryError ''PackageNotFoundError''))]"
  using outputs_in_upload_order [OF demo_uploads_docs, of demo_processor "DocxBlob empty_doc" "[]"]
    demo_uploads_docs demo_uploads_archive
  by simp

section \<open>Page setup\<close>

lemma set_margins_page:
  assumes "set_margins L margins sides s = Inr s'"
    and "\<forall>sd \<in> set sides. \<forall>v x. orientation (snd sd v x) = orientation x \<and>
           page_width (snd sd v x) = page_width x \<and> page_height (snd sd v x) = page_height x"
  shows "orientation s' = orientation s \<and> page_width s' = page_width s \<and>
         page_height s' = page_height s"
  using assms
proof (induction sides arbitrary: s)
  case Nil
  then show ?case by simp
next
  case (Cons sd sides)
  obtain side setattr where sd: "sd = (side, setattr)" by (cases sd)
  from Cons.prems(2) sd have keep: "\<And>v x. orientation (setattr v x) = orientation x \<and>
      page_width (setattr v x) = page_width x \<and> page_height (setattr v x) = page_height x"
    by auto
  from Cons.prems(2) have rest: "\<forall>sd \<in> set sides. \<forall>v x. orientation (snd sd v x) = orientation x \<and>
           page_width (snd sd v x) = page_width x \<and> page_height (snd sd v x) = page_height x"
    by simp
  from Cons.prems(1) sd obtain present where pr: "py_contains margins side = Inr present"
    and step: "(if present then
         bind_r (py_getitem margins side) (\<lambda>v.
         bind_r (Mm_float L v) (\<lambda>emu. set_margins L margins sides (setattr emu s)))
       else set_margins L margins sides s) = Inr s'"
    by (auto simp: bind_r_eq_Inr)
  show ?case
  proof (cases present)
    case False
    with step have "set_margins L margins sides s = Inr s'" by simp
    from Cons.IH[OF this rest] show ?thesis .
  next
    case True
    with step obtain v emu where "set_margins L margins sides (setattr emu s) = Inr s'"
      by (auto simp: bind_r_eq_Inr)
    from Cons.IH[OF this rest] keep show ?thesis by simp
  qed
qed

lemma margin_sides_keep:
  "\<forall>sd \<in> set margin_sides. \<forall>v x. orientation (snd sd v x) = orientation x \<and>
     page_width (snd sd v x) = page_width x \<and> page_height (snd sd v x) = page_height x"
  by (simp add: margin_sides_def)

lemma setup_section_page:
  assumes "setup_section L orientation_name margins s = Inr s'"
  shows "if orientation_name = ''landscape''
         then orientation s' = LANDSCAPE \<and> page_width s' = page_height s \<and>
              page_height s' = page_width s
         else orientation s' = PORTRAIT \<and> page_width s' = page_width s \<and>
              page_height s' = page_height s"
  using set_margins_page[OF assms[unfolded setup_section_def] margin_sides_keep]
  by (simp split: if_splits)

lemma setup_sections_each:
  "setup_sections L orientation_name margins ss = Inr ss' \<Longrightarrow>
     list_all2 (\<lambda>s s'. setup_section L orientation_name margins s = Inr s') ss ss'"
  by (induction ss arbitrary: ss') (auto simp: bind_r_eq_Inr)

lemma apply_page_setup_sections:
  assumes "Document L b = Inr doc" "apply_page_setup L b cfg = Inr b'"
  shows "\<exists>ss'. setup_sections L (lower (py_str (dict_get cfg ''orientation'' (PStr ''portrait''))))
            (dict_get cfg ''margins_mm'' (PDict [])) (sections doc) = Inr ss' \<and>
          b' = doc_to_bytes L (doc\<lparr>sections := ss'\<rparr>)"
  using assms by (auto simp: apply_page_setup_def Let_def bind_r_eq_Inr)

lemma setup_sections_page:
  assumes "setup_sections L orientation_name margins ss = Inr ss'"
  shows "length ss' = length ss \<and>
    (\<forall>i < length ss'.
       if orientation_name = ''landscape''
       then orientation (ss' ! i) = LANDSCAPE \<and> page_width (ss' ! i) = page_height (ss ! i) \<and>
            page_height (ss' ! i) = page_width (ss ! i)
       else orientation (ss' ! i) = PORTRAIT \<and> page_width (ss' ! i) = page_width (ss ! i) \<and>
            page_height (ss' ! i) = page_height (ss ! i))"
proof -
  from setup_sections_each[OF assms]
  have all: "list_all2 (\<lambda>s s'. setup_section L orientation_name margins s = Inr s') ss ss'" .
  then have len: "length ss' = length ss" by (simp add: list_all2_lengthD)
  have "\<And>i. i < length ss' \<Longrightarrow> setup_section L orientation_name margins (ss ! i) = Inr (ss' ! i)"
    using all by (simp add: list_all2_conv_all_nth)
  then show ?thesis using len setup_section_page by blast
qed

lemma demo_doc_sections: "sections demo_doc = [a4_section]"
  by (simp add: demo_doc_def)

text \<open>
  Claim C8, as stated, fails: the orientation is compared after \<^verbatim>\<open>str(...).lower()\<close>, so
  a configured value other than the string \<open>landscape\<close>, here \<open>LANDSCAPE\<close>, also turns
  the section to landscape and swaps its dimensions.
\<close>

theorem apply_page_setup_uppercase_landscape:
  "PStr ''LANDSCAPE'' \<noteq> PStr ''landscape'' \<and>
   apply_page_setup demo_library (DocxBlob demo_doc) [(''orientation'', PStr ''LANDSCAPE'')] =
     Inr (DocxBlob (demo_doc\<lparr>sections := [landscape_section]\<rparr>)) \<and>
   orientation landscape_section \<noteq> PORTRAIT \<and>
   page_width landscape_section \<noteq> page_width a4_section \<and>
   page_height landscape_section \<noteq> page_height a4_section"
  by (simp add: apply_page_setup_def demo_library_def demo_doc_sections dict_get_def py_str_def
      lower_def lower_char_def char_of_def bit_iff_odd setup_section_def margin_sides_def
      landscape_section_def a4_section_def)

text \<open>
  Claim C8, amended. When \<^verbatim>\<open>apply_page_setup\<close> returns, and the configured orientation,
  converted with \<^verbatim>\<open>str\<close> and lower-cased, is \<open>landscape\<close>, every section is set to
  landscape and its page width and page height are swapped, so applying it a second
  time to the document it saved restores each section's original page dimensions; for
  any other value every section is set to portrait and its page dimensions are left
  unchanged.
\<close>

theorem apply_page_setup_orientation:
  assumes "Document L b = Inr doc" and "apply_page_setup L b cfg = Inr b1"
  shows "\<exists>ss1. b1 = doc_to_bytes L (doc\<lparr>sections := ss1\<rparr>) \<and>
     length ss1 = length (sections doc) \<and>
     (\<forall>i < length ss1.
        if lower (py_str (dict_get cfg ''orientation'' (PStr ''portrait''))) = ''landscape''
        then orientation (ss1 ! i) = LANDSCAPE \<and>
             page_width (ss1 ! i) = page_height (sections doc ! i) \<and>
             page_height (ss1 ! i) = page_width (sections doc ! i)
        else orientation (ss1 ! i) = PORTRAIT \<and>
             page_width (ss1 ! i) = page_width (sections doc ! i) \<and>
             page_height (ss1 ! i) = page_height (sections doc ! i)) \<and>
     (lower (py_str (dict_get cfg ''orientation'' (PStr ''portrait''))) = ''landscape'' \<longrightarrow>
        (\<forall>b2. Document L b1 = Inr (doc\<lparr>sections := ss1\<rparr>) \<and> apply_page_setup L b1 cfg = Inr b2 \<longrightarrow>
           (\<exists>ss2. b2 = doc_to_bytes L (doc\<lparr>sections := ss2\<rparr>) \<and>
              length ss2 = length (sections doc) \<and>
              (\<forall>i < length ss2.
                 page_width (ss2 ! i) = page_width (sections doc ! i) \<and>
                 page_height (ss2 ! i) = page_height (sections doc ! i)))))"
proof -
  let ?o = "lower (py_str (dict_get cfg ''orientation'' (PStr ''portrait'')))"
  let ?m = "dict_get cfg ''margins_mm'' (PDict [])"
  from apply_page_setup_sections[OF assms] obtain ss1 where
    run1: "setup_sections L ?o ?m (sections doc) = Inr ss1" and
    b1: "b1 = doc_to_bytes L (doc\<lparr>sections := ss1\<rparr>)" by blast
  note p1 = setup_sections_page[OF run1]
  have twice: "\<exists>ss2. b2 = doc_to_bytes L (doc\<lparr>sections := ss2\<rparr>) \<and>
              length ss2 = length (sections doc) \<and>
              (\<forall>i < length ss2.
                 page_width (ss2 ! i) = page_width (sections doc ! i) \<and>
                 page_height (ss2 ! i) = page_height (sections doc ! i))"
    if land: "?o = ''landscape''"
      and reread: "Document L b1 = Inr (doc\<lparr>sections := ss1\<rparr>)"
      and again: "apply_page_setup L b1 cfg = Inr b2" for b2
  proof -
    from apply_page_setup_sections[OF reread again] obtain ss2 where
      run2: "setup_sections L ?o ?m ss1 = Inr ss2" and
      b2: "b2 = doc_to_bytes L (doc\<lparr>sections := ss2\<rparr>)" by auto
    note p2 = setup_sections_page[OF run2]
    have "length ss2 = length (sections doc)" using p1 p2 by simp
    moreover have "\<forall>i < length ss2.
                 page_width (ss2 ! i) = page_width (sections doc ! i) \<and>
                 page_height (ss2 ! i) = page_height (sections doc ! i)"
      using p1 p2 land by simp
    ultimately show ?thesis using b2 by blast
  qed
  show ?thesis
    apply (rule exI[of _ ss1])
    using b1 p1 twice by blast
qed

lemma demo_Document: "Document demo_library (DocxBlob d) = Inr d"
  by (simp add: demo_library_def)

lemma demo_landscape_once:
  "apply_page_setup demo_library (DocxBlob demo_doc) landscape_cfg =
     Inr (DocxBlob (demo_doc\<lparr>sections := [landscape_section\<lparr>top_margin := Some 360000\<rparr>]\<rparr>))"
  by (simp add: apply_page_setup_def demo_library_def demo_doc_sections dict_get_def py_str_def
      lower_def lower_char_def char_of_def bit_iff_odd setup_section_def margin_sides_def
      landscape_section_def a4_section_def landscape_cfg_def)

lemma demo_landscape_twice:
  "apply_page_setup demo_library
     (DocxBlob (demo_doc\<lparr>sections := [landscape_section\<lparr>top_margin := Some 360000\<rparr>]\<rparr>)) landscape_cfg =
     Inr (DocxBlob (demo_doc\<lparr>sections := [a4_section\<lparr>orientation := LANDSCAPE, top_margin := Some 360000\<rparr>]\<rparr>))"
  by (simp add: apply_page_setup_def demo_library_def dict_get_def py_str_def
      lower_def lower_char_def char_of_def bit_iff_odd setup_section_def margin_sides_def
      landscape_section_def a4_section_def landscape_cfg_def)

lemma demo_sideways:
  "apply_page_setup demo_library (DocxBlob demo_doc) [(''orientation'', PStr ''sideways'')] =
     Inr (DocxBlob (demo_doc\<lparr>sections := [a4_section]\<rparr>))"
  by (simp add: apply_page_setup_def demo_library_def demo_doc_sections dict_get_def py_str_def
      lower_def lower_char_def char_of_def bit_iff_odd setup_section_def margin_sides_def
      a4_section_def)

theorem apply_page_setup_orientation_witness:
  "apply_page_setup demo_library (DocxBlob demo_doc) landscape_cfg =
     Inr (DocxBlob (demo_doc\<lparr>sections := [landscape_section\<lparr>top_margin := Some 360000\<rparr>]\<rparr>)) \<and>
   apply_page_setup demo_library
     (DocxBlob (demo_doc\<lparr>sections := [landscape_section\<lparr>top_margin := Some 360000\<rparr>]\<rparr>)) landscape_cfg =
     Inr (DocxBlob (demo_doc\<lparr>sections := [a4_section\<lparr>orientation := LANDSCAPE, top_margin := Some 360000\<rparr>]\<rparr>)) \<and>
   apply_page_setup demo_library (DocxBlob demo_doc) [(''orientation'', PStr ''sideways'')] =
     Inr (DocxBlob (demo_doc\<lparr>sections := [a4_section]\<rparr>))"
  using apply_page_setup_orientation [OF demo_Document demo_landscape_once]
    apply_page_setup_orientation [OF demo_Document demo_sideways]
    demo_landscape_once demo_landscape_twice demo_sideways
  by blast

section \<open>Find and replace\<close>

lemma funpow_remove_hyperlink:
  "(remove_first_run ^^ n) (Hyperlink t # xs) = Hyperlink t # (remove_first_run ^^ n) xs"
  by (induction n) simp_all

lemma remove_all_runs: "(remove_first_run ^^ length (runs xs)) xs = non_runs xs"
proof (induction xs rule: runs.induct)
  case 1
  show ?case by simp
next
  case (2 r xs)
  then show ?case by (simp add: funpow_swap1)
next
  case (3 t xs)
  then show ?case by (simp add: funpow_remove_hyperlink)
qed

lemma runs_non_runs: "runs (non_runs xs) = []"
  by (induction xs rule: non_runs.induct) simp_all

lemma non_runs_idem: "non_runs (non_runs xs) = non_runs xs"
  by (induction xs rule: non_runs.induct) simp_all

lemma runs_append: "runs (xs @ ys) = runs xs @ runs ys"
  by (induction xs rule: runs.induct) simp_all

lemma non_runs_append: "non_runs (xs @ ys) = non_runs xs @ non_runs ys"
  by (induction xs rule: non_runs.induct) simp_all

lemma add_run_clear_runs: "add_run (clear_runs p) t = collapsed p t"
  by (simp add: add_run_def clear_runs_def collapsed_def remove_all_runs)

lemma runs_collapsed:
  "runs (content (collapsed p t)) = [\<lparr>run_text = t, bold = None, italic = None\<rparr>]"
  by (simp add: collapsed_def runs_append runs_non_runs)

lemma collapsed_collapsed: "collapsed (collapsed p t) u = collapsed p u"
  by (simp add: collapsed_def non_runs_append non_runs_idem)

lemma replace_in_paragraph_cases:
  assumes "replace_in_paragraph L p pattern repl = Inr p'"
  shows "(re_sub L pattern repl (find_text p) = Inr (find_text p) \<and> p' = p) \<or>
         (\<exists>t. re_sub L pattern repl (find_text p) = Inr t \<and> t \<noteq> find_text p \<and> p' = collapsed p t)"
  using assms
  by (auto simp: replace_in_paragraph_def Let_def bind_r_eq_Inr add_run_clear_runs split: if_splits)

lemma rewrites_to_shape:
  "rewrites_to L rules p p' \<Longrightarrow> p' = p \<or> (\<exists>t. p' = collapsed p t)"
  by (induction rule: rewrites_to.induct) auto

lemma rewrites_to_mono:
  "rewrites_to L rules p p' \<Longrightarrow> set rules \<subseteq> set rules' \<Longrightarrow> rewrites_to L rules' p p'"
proof (induction rule: rewrites_to.induct)
  case unchanged
  show ?case by (rule rewrites_to.unchanged)
next
  case (replaced q rule t)
  then show ?case by (auto intro: rewrites_to.replaced)
qed

lemma rewrites_to_trans:
  assumes "rewrites_to L rules p p1" and "rewrites_to L rules p1 p2"
  shows "rewrites_to L rules p p2"
  using assms(2)
proof (induction rule: rewrites_to.induct)
  case unchanged
  show ?case by (rule assms(1))
next
  case (replaced q rule t)
  have "rewrites_to L rules p (collapsed p t)"
    by (rule rewrites_to.replaced[OF replaced.IH replaced.hyps(2) replaced.hyps(3)])
  moreover have "collapsed p1 t = collapsed p t"
    using rewrites_to_shape[OF assms(1)] by (auto simp: collapsed_collapsed)
  ultimately show ?case by simp
qed

lemma para_frame_refl: "para_frame L rules p p"
  by (simp add: para_frame_def rewrites_to.unchanged)

lemma para_frame_trans:
  assumes "para_frame L rules p p1" "para_frame L rules p1 p2"
  shows "para_frame L rules p p2"
proof -
  have "(\<forall>rule \<in> set rules. \<not> rule_changes L p rule) \<longrightarrow> p2 = p"
    using assms by (auto simp: para_frame_def)
  moreover have "rewrites_to L rules p p2"
    using assms by (auto simp: para_frame_def intro: rewrites_to_trans)
  ultimately show ?thesis by (simp add: para_frame_def)
qed

lemma replace_rules_frame:
  "replace_rules L rules p = Inr p' \<Longrightarrow> para_frame L rules p p'"
proof (induction rules arbitrary: p)
  case Nil
  then show ?case by (simp add: para_frame_def rewrites_to.unchanged)
next
  case (Cons rule rules)
  from Cons.prems obtain d where d: "rule = PDict d"
    by (cases rule) (auto simp: bind_r_eq_Inr)
  let ?pat = "dict_get d ''pattern'' PNone"
  let ?rep = "dict_get d ''replace'' (PStr [])"
  have sub: "set rules \<subseteq> set (rule # rules)" by auto
  have weaken: "para_frame L (rule # rules) p p'"
    if f: "para_frame L rules p p'" and keep: "\<not> rule_changes L p rule"
  proof -
    from f have "rewrites_to L rules p p'" by (simp add: para_frame_def)
    then have "rewrites_to L (rule # rules) p p'" using sub by (rule rewrites_to_mono)
    moreover from f keep have "(\<forall>r \<in> set (rule # rules). \<not> rule_changes L p r) \<longrightarrow> p' = p"
      by (auto simp: para_frame_def)
    ultimately show ?thesis by (simp add: para_frame_def)
  qed
  show ?case
  proof (cases "truthy ?pat")
    case False
    with Cons.prems d have "replace_rules L rules p = Inr p'" by simp
    from Cons.IH[OF this] have "para_frame L rules p p'" .
    moreover have "\<not> rule_changes L p rule" using False d by (simp add: rule_changes_def)
    ultimately show ?thesis by (rule weaken)
  next
    case True
    with Cons.prems d obtain p1 where 1: "replace_in_paragraph L p ?pat ?rep = Inr p1"
      and 2: "replace_rules L rules p1 = Inr p'"
      by (auto simp: bind_r_eq_Inr)
    note ih = Cons.IH[OF 2]
    from replace_in_paragraph_cases[OF 1] show ?thesis
    proof
      assume same: "re_sub L ?pat ?rep (find_text p) = Inr (find_text p) \<and> p1 = p"
      then have "\<not> rule_changes L p rule" using d by (simp add: rule_changes_def)
      moreover from ih same have "para_frame L rules p p'" by simp
      ultimately show ?thesis by (rule weaken[rotated])
    next
      assume "\<exists>t. re_sub L ?pat ?rep (find_text p) = Inr t \<and> t \<noteq> find_text p \<and> p1 = collapsed p t"
      then obtain t where t: "re_sub L ?pat ?rep (find_text p) = Inr t" "t \<noteq> find_text p"
        "p1 = collapsed p t" by blast
      then have ch: "rule_changes L p rule" using True d by (simp add: rule_changes_def)
      have rw: "rule_rewrites L rule p t" using t True d by (simp add: rule_rewrites_def)
      have first: "rewrites_to L (rule # rules) p p1"
        unfolding t(3) by (rule rewrites_to.replaced[OF rewrites_to.unchanged _ rw]) simp
      from ih have "rewrites_to L rules p1 p'" by (simp add: para_frame_def)
      then have "rewrites_to L (rule # rules) p1 p'" using sub by (rule rewrites_to_mono)
      with first have "rewrites_to L (rule # rules) p p'" by (rule rewrites_to_trans)
      with ch show ?thesis by (auto simp: para_frame_def)
    qed
  qed
qed

lemma replace_paragraphs_each:
  "replace_paragraphs L rules ps = Inr ps' \<Longrightarrow>
     list_all2 (\<lambda>p p'. replace_rules L rules p = Inr p') ps ps'"
  by (induction ps arbitrary: ps') (auto simp: bind_r_eq_Inr)

lemma replace_paragraphs_frame:
  assumes "replace_paragraphs L rules ps = Inr ps'"
  shows "list_all2 (para_frame L rules) ps ps'"
  using replace_paragraphs_each[OF assms]
  by (rule list_all2_mono) (rule replace_rules_frame)

lemma store_frame_refl: "list_all2 (list_all2 (para_frame L rules)) store store"
  by (intro list_all2_refl para_frame_refl)

lemma store_frame_trans:
  assumes "list_all2 (list_all2 (para_frame L rules)) s0 s1"
    and "list_all2 (list_all2 (para_frame L rules)) s1 s2"
  shows "list_all2 (list_all2 (para_frame L rules)) s0 s2"
proof -
  have inner: "\<And>a b c. list_all2 (para_frame L rules) a b \<Longrightarrow>
      list_all2 (para_frame L rules) b c \<Longrightarrow> list_all2 (para_frame L rules) a c"
    by (rule list_all2_trans[of "para_frame L rules" "para_frame L rules" "para_frame L rules"])
       (rule para_frame_trans)
  show ?thesis
    by (rule list_all2_trans[OF _ assms]) (rule inner)
qed

lemma replace_container_frame:
  assumes "replace_container L rules r store = Inr store'"
  shows "list_all2 (list_all2 (para_frame L rules)) store store'"
proof (cases "r < length store")
  case False
  with assms show ?thesis by (simp add: replace_container_def store_frame_refl)
next
  case True
  with assms obtain ps where ps: "replace_paragraphs L rules (store ! r) = Inr ps"
    and s: "store' = store[r := ps]"
    by (auto simp: replace_container_def bind_r_eq_Inr)
  have "list_all2 (list_all2 (para_frame L rules)) (store[r := store ! r]) (store[r := ps])"
    by (rule list_all2_update_cong[OF store_frame_refl replace_paragraphs_frame[OF ps]])
  then show ?thesis using s by simp
qed

lemma replace_sections_frame:
  "replace_sections L rules ss store = Inr store' \<Longrightarrow>
     list_all2 (list_all2 (para_frame L rules)) store store'"
proof (induction ss arbitrary: store)
  case Nil
  then show ?case by (simp add: store_frame_refl)
next
  case (Cons s ss)
  from Cons.prems obtain store1 store2 where
    1: "replace_container L rules (header_ref s) store = Inr store1" and
    2: "replace_container L rules (footer_ref s) store1 = Inr store2" and
    3: "replace_sections L rules ss store2 = Inr store'"
    by (auto simp: bind_r_eq_Inr)
  show ?case
    using store_frame_trans[OF replace_container_frame[OF 1]
        store_frame_trans[OF replace_container_frame[OF 2] Cons.IH[OF 3]]] .
qed

lemma link_para_joined: "joined_run_text link_para = []"
  by (simp add: joined_run_text_def link_para_def)

text \<open>
  Claim C9, as stated, fails: the substitution runs on the joined run text only when
  that is not empty, and on \<^verbatim>\<open>p.text\<close> otherwise. In a paragraph whose only text is in a
  hyperlink the joined run text is empty and no rule changes it, and yet the paragraph
  is modified: a run with the rewritten text of the hyperlink is added.
\<close>

theorem find_replace_hyperlink_only:
  "joined_run_text link_para = [] \<and>
   re_sub demo_library (PStr ''a'') (PStr ''b'') (joined_run_text link_para) =
     Inr (joined_run_text link_para) \<and>
   replace_rules demo_library link_rules link_para =
     Inr (link_para\<lparr>content := [Hyperlink ''xax'', plain_run ''xbx'']\<rparr>) \<and>
   link_para\<lparr>content := [Hyperlink ''xax'', plain_run ''xbx'']\<rparr> \<noteq> link_para \<and>
   runs (content (link_para\<lparr>content := [Hyperlink ''xax'', plain_run ''xbx'']\<rparr>)) \<noteq>
     runs (content link_para) \<and>
   apply_find_replace demo_library (DocxBlob link_doc) link_rules =
     Inr (DocxBlob (link_doc\<lparr>paragraphs := [link_para\<lparr>content := [Hyperlink ''xax'', plain_run ''xbx'']\<rparr>]\<rparr>))"
  by (simp add: link_para_joined)
     (simp add: apply_find_replace_def demo_library_def link_doc_def link_para_def link_rules_def
      replace_in_paragraph_def find_text_def joined_run_text_def p_text_def clear_runs_def
      add_run_def dict_get_def plain_run_def Let_def)

text \<open>
  Claim C9, amended. In \<^verbatim>\<open>apply_find_replace\<close>, a paragraph is modified only when some
  rule's substitution changes the text it runs on, which is the joined run text of the
  paragraph or, when that is empty, \<^verbatim>\<open>p.text\<close>. When the function returns, every body
  paragraph of the saved document is what the rule loop makes of the paragraph at the
  same position, and every body, header and footer paragraph satisfies the frame
  condition: if no rule changes its text, it is exactly as it was, runs and formatting
  included; and if it is not as it was, its runs were removed and replaced by a single
  run holding the new text that a rule's substitution returned.
\<close>

theorem apply_find_replace_frame:
  assumes "Document L b = Inr doc" and "apply_find_replace L b rules = Inr b1"
  shows "\<exists>body store. b1 = doc_to_bytes L (doc\<lparr>paragraphs := body, hf_parts := store\<rparr>) \<and>
     list_all2 (\<lambda>p p1. replace_rules L rules p = Inr p1 \<and> para_frame L rules p p1)
       (paragraphs doc) body \<and>
     list_all2 (list_all2 (para_frame L rules)) (hf_parts doc) store"
proof -
  from assms obtain body store where
    bd: "replace_paragraphs L rules (paragraphs doc) = Inr body" and
    st: "replace_sections L rules (sections doc) (hf_parts doc) = Inr store" and
    b1: "b1 = doc_to_bytes L (doc\<lparr>paragraphs := body, hf_parts := store\<rparr>)"
    by (auto simp: apply_find_replace_def bind_r_eq_Inr)
  have "list_all2 (\<lambda>p p1. replace_rules L rules p = Inr p1 \<and> para_frame L rules p p1)
       (paragraphs doc) body"
    using replace_paragraphs_each[OF bd]
    by (rule list_all2_mono) (simp add: replace_rules_frame)
  with b1 replace_sections_frame[OF st] show ?thesis by blast
qed

lemma demo_find_replace:
  "apply_find_replace demo_library (DocxBlob demo_doc) demo_rules = Inr (DocxBlob replaced_doc)"
  by (simp add: apply_find_replace_def demo_library_def demo_doc_def demo_rules_def replaced_doc_def
      replace_container_def replace_in_paragraph_def find_text_def joined_run_text_def p_text_def clear_runs_def
      add_run_def dict_get_def plain_run_def bold_run_def a4_section_def Let_def)

lemma demo_first_rewrite:
  "rule_rewrites demo_library (PDict [(''pattern'', PStr ''b''), (''replace'', PStr ''zz'')])
     (paragraphs demo_doc ! 0) ''azzzza''"
  by (simp add: rule_rewrites_def demo_library_def demo_doc_def find_text_def joined_run_text_def
      dict_get_def plain_run_def bold_run_def)

theorem apply_find_replace_frame_witness:
  "apply_find_replace demo_library (DocxBlob demo_doc) demo_rules = Inr (DocxBlob replaced_doc) \<and>
   paragraphs replaced_doc ! 0 = collapsed (paragraphs demo_doc ! 0) ''azzzza'' \<and>
   rule_rewrites demo_library (PDict [(''pattern'', PStr ''b''), (''replace'', PStr ''zz'')])
     (paragraphs demo_doc ! 0) ''azzzza'' \<and>
   para_frame demo_library demo_rules (paragraphs demo_doc ! 0) (paragraphs replaced_doc ! 0) \<and>
   paragraphs replaced_doc ! 1 = paragraphs demo_doc ! 1 \<and>
   hf_parts replaced_doc = hf_parts demo_doc"
proof -
  from apply_find_replace_frame [OF demo_Document demo_find_replace]
  obtain body store where
    saved: "DocxBlob replaced_doc =
      doc_to_bytes demo_library (demo_doc\<lparr>paragraphs := body, hf_parts := store\<rparr>)" and
    frames: "list_all2 (\<lambda>p p1. replace_rules demo_library demo_rules p = Inr p1 \<and>
      para_frame demo_library demo_rules p p1) (paragraphs demo_doc) body"
    by blast
  from saved have "replaced_doc = demo_doc\<lparr>paragraphs := body, hf_parts := store\<rparr>"
    by (simp add: demo_library_def)
  then have "paragraphs replaced_doc = paragraphs (demo_doc\<lparr>paragraphs := body, hf_parts := store\<rparr>)"
    by (rule arg_cong)
  then have body: "body = paragraphs replaced_doc"
    by simp
  have "0 < length (paragraphs demo_doc)" by (simp add: demo_doc_def)
  with frames have
    "para_frame demo_library demo_rules (paragraphs demo_doc ! 0) (paragraphs replaced_doc ! 0)"
    unfolding body by (simp add: list_all2_conv_all_nth)
  moreover have "paragraphs replaced_doc ! 0 = collapsed (paragraphs demo_doc ! 0) ''azzzza''"
    "paragraphs replaced_doc ! 1 = paragraphs demo_doc ! 1"
    "hf_parts replaced_doc = hf_parts demo_doc"
    by (simp_all add: replaced_doc_def demo_doc_def collapsed_def plain_run_def bold_run_def)
  ultimately show ?thesis
    using demo_find_replace demo_first_rewrite by simp
qed

end
